theory Spec2Isabelle
  imports Main
begin

section \<open>Entity model (models.py)\<close>

text \<open>
  The dataclasses of \<^verbatim>\<open>models.py\<close>. The fields \<^verbatim>\<open>id\<close>, \<^verbatim>\<open>name\<close>,
  \<^verbatim>\<open>file_path\<close> and \<^verbatim>\<open>line_number\<close> occur in both \<^verbatim>\<open>FunctionNode\<close> and
  \<^verbatim>\<open>ClassNode\<close> (and \<^verbatim>\<open>id\<close> is a HOL constant), so they carry the prefix of
  their class. \<^verbatim>\<open>function_map\<close> is the Python dict from names to ids.
\<close>

record FileNode =
  path :: string
  relative_path :: string

record FunctionNode =
  func_id :: string
  func_name :: string
  func_file_path :: string
  func_line_number :: nat

record ClassNode =
  class_id :: string
  class_name :: string
  class_file_path :: string
  class_line_number :: nat

record ImportRelation =
  from_file :: string
  to_file :: string
  import_name :: string

record CallRelation =
  from_function :: string
  to_function :: string

record RepositoryData =
  files :: "FileNode list"
  "functions" :: "FunctionNode list"
  classes :: "ClassNode list"
  "imports" :: "ImportRelation list"
  calls :: "CallRelation list"
  function_map :: "string \<rightharpoonup> string"

section \<open>Syntax trees (the part of Python's ast module the parser looks at)\<close>

text \<open>
  \<^verbatim>\<open>alias\<close> is \<^verbatim>\<open>ast.alias\<close>. A \<open>node\<close> is an \<^verbatim>\<open>ast.AST\<close> object:
  the classes that \<^verbatim>\<open>parser.py\<close> tests with \<^verbatim>\<open>isinstance\<close> or dispatches on
  each have a constructor, every other class is \<open>Other\<close>. The node list of
  \<open>FunctionDef\<close>, \<open>AsyncFunctionDef\<close>, \<open>ClassDef\<close> and \<open>Other\<close> is the list of
  child nodes in field order (for a function: arguments, body, decorators,
  return annotation), which is the order of \<^verbatim>\<open>ast.iter_child_nodes\<close> and of
  \<^verbatim>\<open>NodeVisitor.generic_visit\<close>. \<open>Call f args\<close> has the callee \<open>f\<close> and then the
  positional and keyword arguments. The \<^verbatim>\<open>alias\<close> children of an import and
  the expression-context leaf of \<open>Name\<close> and \<open>Attribute\<close> belong to none of the
  classes the parser looks for and have no children; they are left out.
\<close>

record ast_alias =
  alias_name :: string
  asname :: "string option"

datatype node =
    FunctionDef string nat "node list"
  | AsyncFunctionDef string nat "node list"
  | ClassDef string nat "node list"
  | Import "ast_alias list"
  | ImportFrom "string option" "ast_alias list"
  | Call node "node list"
  | Name string
  | Attribute node string
  | Other "node list"

fun iter_child_nodes :: "node \<Rightarrow> node list" where
  "iter_child_nodes (FunctionDef name lineno children) = children"
| "iter_child_nodes (AsyncFunctionDef name lineno children) = children"
| "iter_child_nodes (ClassDef name lineno children) = children"
| "iter_child_nodes (Import names) = []"
| "iter_child_nodes (ImportFrom module names) = []"
| "iter_child_nodes (Call func args) = func # args"
| "iter_child_nodes (Name ident) = []"
| "iter_child_nodes (Attribute val attr) = [val]"
| "iter_child_nodes (Other children) = children"

text \<open>
  \<^verbatim>\<open>ast.walk\<close>: a queue that starts with the root; each step pops the first
  node, appends its children to the queue and yields the node (breadth first).
\<close>

function ast_walk_todo :: "node list \<Rightarrow> node list" where
  "ast_walk_todo [] = []"
| "ast_walk_todo (n # todo) = n # ast_walk_todo (todo @ iter_child_nodes n)"
  by pat_completeness auto
termination
proof (relation "measure (\<lambda>todo. sum_list (map (\<lambda>c. Suc (size c)) todo))")
  show "wf (measure (\<lambda>todo. sum_list (map (\<lambda>c. Suc (size c)) todo)))"
    by simp
next
  fix n :: node and todo :: "node list"
  have weight: "sum_list (map (\<lambda>c. Suc (size c)) xs) = sum_list (map size xs) + length xs"
    for xs :: "node list"
    by (induction xs) simp_all
  have "sum_list (map (\<lambda>c. Suc (size c)) (iter_child_nodes n)) < Suc (size n)"
    by (cases n) (simp_all add: size_list_conv_sum_list weight)
  then show "(todo @ iter_child_nodes n, n # todo)
      \<in> measure (\<lambda>todo. sum_list (map (\<lambda>c. Suc (size c)) todo))"
    by simp
qed

definition ast_walk :: "node \<Rightarrow> node list" where
  "ast_walk tree = ast_walk_todo [tree]"

section \<open>Python strings and paths\<close>

text \<open>Truthiness of an optional string: \<^verbatim>\<open>None\<close> and \<^verbatim>\<open>""\<close> are false.\<close>

fun truthy :: "string option \<Rightarrow> bool" where
  "truthy None = False"
| "truthy (Some s) = (s \<noteq> [])"

text \<open>\<^verbatim>\<open>str.split(sep)\<close> for a separator of one character.\<close>

fun str_split :: "char \<Rightarrow> string \<Rightarrow> string list" where
  "str_split sep [] = [[]]"
| "str_split sep (c # cs) =
     (if c = sep then [] # str_split sep cs
      else (case str_split sep cs of
              [] \<Rightarrow> [[c]]
            | p # ps \<Rightarrow> (c # p) # ps))"

text \<open>
  \<^verbatim>\<open>os.path.join(a, *p)\<close> of \<^verbatim>\<open>posixpath\<close>: a component that starts with the
  separator, or one that follows an empty path, replaces the path; after a
  path that ends with the separator the component is appended as it is.
\<close>

definition join_component :: "string \<Rightarrow> string \<Rightarrow> string" where
  "join_component pth b =
     (if (b \<noteq> [] \<and> hd b = CHR ''/'') \<or> pth = [] then b
      else if last pth = CHR ''/'' then pth @ b
      else pth @ ''/'' @ b)"

definition os_path_join :: "string \<Rightarrow> string list \<Rightarrow> string" where
  "os_path_join a p = foldl join_component a p"

text \<open>
  \<^verbatim>\<open>os.path.join(*module_parts) + '.py'\<close> with
  \<^verbatim>\<open>module_parts = module.split('.')\<close>. \<^verbatim>\<open>split\<close> never returns the empty
  list (lemma \<open>str_split_not_Nil\<close> below), so the \<^verbatim>\<open>TypeError\<close> of a call of
  \<^verbatim>\<open>os.path.join\<close> without arguments cannot happen; that case is listed
  only because \<open>case\<close> needs it.
\<close>

definition potential_path :: "string \<Rightarrow> string" where
  "potential_path module =
     (case str_split CHR ''.'' module of
        [] \<Rightarrow> ''.py''
      | a # p \<Rightarrow> os_path_join a p @ ''.py'')"

text \<open>
  Paths (\<^verbatim>\<open>pathlib.Path\<close>) are absolute POSIX paths, given as the list of
  their components below the root. \<open>str_abs\<close> and \<open>str_rel\<close> are \<^verbatim>\<open>str()\<close> of
  an absolute and of a relative path; \<open>relative_to\<close> raises \<^verbatim>\<open>ValueError\<close>
  (\<open>None\<close>) when the base is not a prefix.
\<close>

type_synonym Path = "string list"

fun join_sep :: "string list \<Rightarrow> string" where
  "join_sep [] = []"
| "join_sep [x] = x"
| "join_sep (x # y # ys) = x @ ''/'' @ join_sep (y # ys)"

definition str_abs :: "Path \<Rightarrow> string" where
  "str_abs p = ''/'' @ join_sep p"

definition str_rel :: "Path \<Rightarrow> string" where
  "str_rel p = (if p = [] then ''.'' else join_sep p)"

definition relative_to :: "Path \<Rightarrow> Path \<Rightarrow> Path option" where
  "relative_to p base =
     (if take (length base) p = base then Some (drop (length base) p) else None)"

definition get_relative_path :: "Path \<Rightarrow> Path \<Rightarrow> string" where
  "get_relative_path repo_path file_path =
     (case relative_to file_path repo_path of
        Some r \<Rightarrow> str_rel r
      | None \<Rightarrow> str_abs file_path)"

section \<open>RepositoryParser (parser.py)\<close>

subsection \<open>parse_imports\<close>

text \<open>
  The loop over \<^verbatim>\<open>ast.walk(tree)\<close>; \<open>imps\<close> is the list \<^verbatim>\<open>imports\<close> being
  built.
  \<^verbatim>\<open>if node.module:\<close> is the truthiness test.
\<close>

definition import_node :: "string \<Rightarrow> node \<Rightarrow> ImportRelation list \<Rightarrow> ImportRelation list" where
  "import_node file_path n imps =
     (case n of
        Import names \<Rightarrow>
          foldl (\<lambda>acc a. acc @ [\<lparr>from_file = file_path,
                                   to_file = potential_path (alias_name a),
                                   import_name = alias_name a\<rparr>]) imps names
      | ImportFrom module names \<Rightarrow>
          (if truthy module then
             foldl (\<lambda>acc a. acc @ [\<lparr>from_file = file_path,
                                      to_file = potential_path (the module),
                                      import_name = the module @ ''.'' @ alias_name a\<rparr>])
               imps names
           else imps)
      | _ \<Rightarrow> imps)"

definition parse_imports :: "node \<Rightarrow> string \<Rightarrow> ImportRelation list" where
  "parse_imports tree file_path = 
     foldl (\<lambda>imps n. import_node file_path n imps) [] (ast_walk tree)"

subsection \<open>parse_function_calls and its CallVisitor\<close>

text \<open>
  The visitor object: its two attributes. \<open>visit\<close> is \<^verbatim>\<open>NodeVisitor.visit\<close>,
  which dispatches to \<^verbatim>\<open>visit_FunctionDef\<close>, \<^verbatim>\<open>visit_AsyncFunctionDef\<close> and
  \<^verbatim>\<open>visit_Call\<close> and to \<^verbatim>\<open>generic_visit\<close> for every other class;
  \<open>generic_visit\<close> visits the children from left to right. \<open>call_name\<close> is the
  local variable of that name in \<^verbatim>\<open>visit_Call\<close>, as a function of
  \<^verbatim>\<open>node.func\<close>.
\<close>

record CallVisitor =
  current_function :: "string option"
  visitor_calls :: "CallRelation list"

fun call_name :: "node \<Rightarrow> string option" where
  "call_name (Name ident) = Some ident"
| "call_name (Attribute (Name ident) attr) = Some (ident @ ''.'' @ attr)"
| "call_name (Attribute val attr) = Some attr"
| "call_name func = None"

definition function_id :: "string \<Rightarrow> string \<Rightarrow> string" where
  "function_id file_path name = file_path @ ''::'' @ name"

fun visit :: "string \<Rightarrow> node \<Rightarrow> CallVisitor \<Rightarrow> CallVisitor"
  and generic_visit :: "string \<Rightarrow> node list \<Rightarrow> CallVisitor \<Rightarrow> CallVisitor" where
  "visit file_path (FunctionDef name lineno children) v =
     (let old_func = current_function v;
          v1 = v\<lparr>current_function := Some (function_id file_path name)\<rparr>;
          v2 = generic_visit file_path children v1
      in v2\<lparr>current_function := old_func\<rparr>)"
| "visit file_path (AsyncFunctionDef name lineno children) v =
     (let old_func = current_function v;
          v1 = v\<lparr>current_function := Some (function_id file_path name)\<rparr>;
          v2 = generic_visit file_path children v1
      in v2\<lparr>current_function := old_func\<rparr>)"
| "visit file_path (Call func args) v =
     (let v1 = (if truthy (current_function v) then
                  (if truthy (call_name func) then
                     v\<lparr>visitor_calls := visitor_calls v @
                          [\<lparr>from_function = the (current_function v),
                            to_function = the (call_name func)\<rparr>]\<rparr>
                   else v)
                else v)
      in generic_visit file_path (func # args) v1)"
| "visit file_path (ClassDef name lineno children) v = generic_visit file_path children v"
| "visit file_path (Import names) v = v"
| "visit file_path (ImportFrom module names) v = v"
| "visit file_path (Name ident) v = v"
| "visit file_path (Attribute val attr) v = generic_visit file_path [val] v"
| "visit file_path (Other children) v = generic_visit file_path children v"
| "generic_visit file_path [] v = v"
| "generic_visit file_path (n # ns) v = generic_visit file_path ns (visit file_path n v)"

definition parse_function_calls :: "node \<Rightarrow> string \<Rightarrow> CallRelation list" where
  "parse_function_calls tree file_path =
     visitor_calls (visit file_path tree \<lparr>current_function = None, visitor_calls = []\<rparr>)"

subsection \<open>extract_functions_and_classes\<close>

text \<open>
  The loop over \<^verbatim>\<open>ast.walk(tree)\<close>. Its state is the two local lists and
  \<^verbatim>\<open>self.data.function_map\<close>, which the loop updates in place.
\<close>

type_synonym extract_state = "FunctionNode list \<times> ClassNode list \<times> (string \<rightharpoonup> string)"

fun extract_node :: "string \<Rightarrow> extract_state \<Rightarrow> node \<Rightarrow> extract_state" where
  "extract_node file_path (fs, cs, fm) (FunctionDef name lineno children) =
     (fs @ [\<lparr>func_id = function_id file_path name, func_name = name,
              func_file_path = file_path, func_line_number = lineno\<rparr>],
      cs, fm(name \<mapsto> function_id file_path name))"
| "extract_node file_path (fs, cs, fm) (AsyncFunctionDef name lineno children) =
     (fs @ [\<lparr>func_id = function_id file_path name, func_name = name,
              func_file_path = file_path, func_line_number = lineno\<rparr>],
      cs, fm(name \<mapsto> function_id file_path name))"
| "extract_node file_path (fs, cs, fm) (ClassDef name lineno children) =
     (fs, cs @ [\<lparr>class_id = function_id file_path name, class_name = name,
                  class_file_path = file_path, class_line_number = lineno\<rparr>], fm)"
| "extract_node file_path (fs, cs, fm) n = (fs, cs, fm)"

definition extract_functions_and_classes ::
  "node \<Rightarrow> string \<Rightarrow> (string \<rightharpoonup> string) \<Rightarrow> extract_state" where
  "extract_functions_and_classes tree file_path fm =
     foldl (extract_node file_path) ([], [], fm) (ast_walk tree)"

subsection \<open>parse_file and parse_repository\<close>

text \<open>
  The file system, the library parser and the interpreter's stack are
  parameters: \<open>read_file\<close> is \<^verbatim>\<open>open(...).read()\<close> and \<open>ast_parse\<close> is
  \<^verbatim>\<open>ast.parse\<close>, each \<open>None\<close> where the call raises; \<open>recursion_error tree\<close>
  says that the recursion of the \<^verbatim>\<open>CallVisitor\<close> through \<open>tree\<close> exceeds the
  interpreter's recursion limit, so that \<^verbatim>\<open>visitor.visit(tree)\<close> raises
  \<^verbatim>\<open>RecursionError\<close> (\<^verbatim>\<open>ast.walk\<close> keeps a queue and does not recurse).
  The whole body of \<^verbatim>\<open>parse_file\<close> is inside the \<^verbatim>\<open>try\<close>, and the handler
  of \<^verbatim>\<open>Exception\<close> returns \<^verbatim>\<open>False\<close>. The two calls that read and parse
  stand before the first update of \<^verbatim>\<open>self.data\<close>; the call of
  \<^verbatim>\<open>parse_function_calls\<close> stands after the updates of the files, the
  imports, the name table, the functions and the classes, which remain when
  it raises. The result is the returned flag and the aggregate after the call.
\<close>

record environment =
  read_file :: "Path \<Rightarrow> string option"
  ast_parse :: "string \<Rightarrow> node option"
  recursion_error :: "node \<Rightarrow> bool"

definition parse_file ::
  "environment \<Rightarrow> Path \<Rightarrow> Path \<Rightarrow> RepositoryData \<Rightarrow> bool \<times> RepositoryData" where
  "parse_file env repo_path file_path data =
     (case read_file env file_path of
        None \<Rightarrow> (False, data)
      | Some content \<Rightarrow>
          (case ast_parse env content of
             None \<Rightarrow> (False, data)
           | Some tree \<Rightarrow>
               (let rel = get_relative_path repo_path file_path;
                    file_node = \<lparr>path = str_abs file_path, relative_path = rel\<rparr>;
                    d1 = data\<lparr>files := files data @ [file_node]\<rparr>;
                    file_imports = parse_imports tree rel;
                    d2 = d1\<lparr>imports := imports d1 @ file_imports\<rparr>;
                    (fs, cs, fm) = extract_functions_and_classes tree rel (function_map d2);
                    d3 = d2\<lparr>function_map := fm\<rparr>;
                    d4 = d3\<lparr>functions := functions d3 @ fs\<rparr>;
                    d5 = d4\<lparr>classes := classes d4 @ cs\<rparr>
                in if recursion_error env tree then (False, d5)
                   else
                     (let file_calls = parse_function_calls tree rel;
                          d6 = d5\<lparr>calls := calls d5 @ file_calls\<rparr>
                      in (True, d6)))))"

text \<open>
  \<^verbatim>\<open>parse_repository\<close>, after \<^verbatim>\<open>find_python_files\<close> has returned the list
  \<open>python_files\<close>: the loop with its counter, from the empty aggregate of
  \<^verbatim>\<open>__init__\<close>. The result is \<^verbatim>\<open>self.data\<close> together with
  \<^verbatim>\<open>success_count\<close>, the number the method prints.
\<close>

definition empty_data :: RepositoryData where
  "empty_data = \<lparr>files = [], functions = [], classes = [], imports = [],
                  calls = [], function_map = Map.empty\<rparr>"

fun parse_loop ::
  "environment \<Rightarrow> Path \<Rightarrow> Path list \<Rightarrow> nat \<times> RepositoryData \<Rightarrow> nat \<times> RepositoryData" where
  "parse_loop env repo_path [] (success_count, data) = (success_count, data)"
| "parse_loop env repo_path (file_path # rest) (success_count, data) =
     (case parse_file env repo_path file_path data of
        (ok, data') \<Rightarrow>
          parse_loop env repo_path rest
            (if ok then success_count + 1 else success_count, data'))"

definition parse_repository ::
  "environment \<Rightarrow> Path \<Rightarrow> Path list \<Rightarrow> nat \<times> RepositoryData" where
  "parse_repository env repo_path python_files =
     parse_loop env repo_path python_files (0, empty_data)"

text \<open>
  The text of a file fails to parse when reading it raises or when
  \<^verbatim>\<open>ast.parse\<close> raises on its text. A file fails, that is \<^verbatim>\<open>parse_file\<close>
  reaches its handler, when its text fails to parse or when the visitor
  raises on its tree.
\<close>

definition parse_fails :: "environment \<Rightarrow> Path \<Rightarrow> bool" where
  "parse_fails env file_path =
     (case read_file env file_path of
        None \<Rightarrow> True
      | Some content \<Rightarrow> ast_parse env content = None)"

definition file_fails :: "environment \<Rightarrow> Path \<Rightarrow> bool" where
  "file_fails env file_path =
     (case read_file env file_path of
        None \<Rightarrow> True
      | Some content \<Rightarrow>
          (case ast_parse env content of
             None \<Rightarrow> True
           | Some tree \<Rightarrow> recursion_error env tree))"

section \<open>Scopes of the call visitor\<close>

text \<open>
  The calls the visitor records below a node, as a function of the scope in
  which the node is reached (the traversal with the current function as an
  explicit argument). It is a proof device: \<open>visit_scoped\<close> shows that the
  visitor appends exactly this list.
\<close>

fun scoped_calls :: "string \<Rightarrow> string option \<Rightarrow> node \<Rightarrow> CallRelation list"
  and scoped_calls_list :: "string \<Rightarrow> string option \<Rightarrow> node list \<Rightarrow> CallRelation list" where
  "scoped_calls fp s (FunctionDef name lineno children) =
     scoped_calls_list fp (Some (function_id fp name)) children"
| "scoped_calls fp s (AsyncFunctionDef name lineno children) =
     scoped_calls_list fp (Some (function_id fp name)) children"
| "scoped_calls fp s (Call func args) =
     (if truthy s \<and> truthy (call_name func)
      then [\<lparr>from_function = the s, to_function = the (call_name func)\<rparr>] else []) @
     scoped_calls_list fp s (func # args)"
| "scoped_calls fp s (ClassDef name lineno children) = scoped_calls_list fp s children"
| "scoped_calls fp s (Import names) = []"
| "scoped_calls fp s (ImportFrom module names) = []"
| "scoped_calls fp s (Name ident) = []"
| "scoped_calls fp s (Attribute val attr) = scoped_calls_list fp s [val]"
| "scoped_calls fp s (Other children) = scoped_calls_list fp s children"
| "scoped_calls_list fp s [] = []"
| "scoped_calls_list fp s (n # ns) = scoped_calls fp s n @ scoped_calls_list fp s ns"

text \<open>
  What a run of the visitor on a node, or on a list of siblings, appends to
  \<^verbatim>\<open>self.calls\<close> when it starts in scope \<open>s\<close>.
\<close>

definition emitted :: "string \<Rightarrow> string option \<Rightarrow> node \<Rightarrow> CallRelation list" where
  "emitted fp s n = visitor_calls (visit fp n \<lparr>current_function = s, visitor_calls = []\<rparr>)"

definition emitted_all :: "string \<Rightarrow> string option \<Rightarrow> node list \<Rightarrow> CallRelation list" where
  "emitted_all fp s ns =
     visitor_calls (generic_visit fp ns \<lparr>current_function = s, visitor_calls = []\<rparr>)"

text \<open>
  The outermost function declarations below a node, from left to right:
  the declarations that no other function declaration encloses.
\<close>

fun top_functions :: "node \<Rightarrow> node list"
  and top_functions_list :: "node list \<Rightarrow> node list" where
  "top_functions (FunctionDef name lineno children) = [FunctionDef name lineno children]"
| "top_functions (AsyncFunctionDef name lineno children) =
     [AsyncFunctionDef name lineno children]"
| "top_functions (ClassDef name lineno children) = top_functions_list children"
| "top_functions (Import names) = []"
| "top_functions (ImportFrom module names) = []"
| "top_functions (Call func args) = top_functions_list (func # args)"
| "top_functions (Name ident) = []"
| "top_functions (Attribute val attr) = top_functions val"
| "top_functions (Other children) = top_functions_list children"
| "top_functions_list [] = []"
| "top_functions_list (n # ns) = top_functions n @ top_functions_list ns"

section \<open>Import edges as the specification words them\<close>

text \<open>
  A well-formed dotted module name, as the Python grammar produces it: the
  parts between the dots are not empty and hold no path separator.
\<close>

definition dotted_name :: "string \<Rightarrow> bool" where
  "dotted_name m =
     list_all (\<lambda>part. part \<noteq> [] \<and> CHR ''/'' \<notin> set part) (str_split CHR ''.'' m)"

text \<open>
  The path construction in the words of the specification: split the dotted
  module path on \<open>.\<close>, join the parts with the path separator, append
  \<open>.py\<close>.
\<close>

definition dotted_to_path :: "string \<Rightarrow> string" where
  "dotted_to_path m = join_sep (str_split CHR ''.'' m) @ ''.py''"

text \<open>The module names an import statement mentions.\<close>

fun module_names :: "node \<Rightarrow> string list" where
  "module_names (Import names) = map alias_name names"
| "module_names (ImportFrom (Some m) names) = [m]"
| "module_names n = []"

text \<open>
  The Import-edges of one node in the words of the specification: one edge
  for each alias of a plain import, one edge for each imported symbol of a
  from-import with a named module, no edge for anything else.
\<close>

fun import_edges :: "string \<Rightarrow> node \<Rightarrow> ImportRelation list" where
  "import_edges file_path (Import names) =
     map (\<lambda>a. \<lparr>from_file = file_path, to_file = dotted_to_path (alias_name a),
                import_name = alias_name a\<rparr>) names"
| "import_edges file_path (ImportFrom (Some m) names) =
     map (\<lambda>a. \<lparr>from_file = file_path, to_file = dotted_to_path m,
                import_name = m @ ''.'' @ alias_name a\<rparr>) names"
| "import_edges file_path n = []"

text \<open>
  A module with \<^verbatim>\<open>import os.path, sys as system\<close>, a function that holds
  \<^verbatim>\<open>from pkg.mod import a, b\<close>, and \<^verbatim>\<open>from . import sibling\<close>.
\<close>

definition tree_imports :: node where
  "tree_imports =
     Other [Import [\<lparr>alias_name = ''os.path'', asname = None\<rparr>,
                    \<lparr>alias_name = ''sys'', asname = Some ''system''\<rparr>],
            FunctionDef ''f'' 2
              [Other [], ImportFrom (Some ''pkg.mod'')
                 [\<lparr>alias_name = ''a'', asname = None\<rparr>, \<lparr>alias_name = ''b'', asname = None\<rparr>]],
            ImportFrom None [\<lparr>alias_name = ''sibling'', asname = None\<rparr>]]"

section \<open>Declarations and the name table\<close>

text \<open>
  The name and line of a function declaration (plain or async), and of a
  class declaration.
\<close>

fun declared_function :: "node \<Rightarrow> (string \<times> nat) option" where
  "declared_function (FunctionDef name lineno children) = Some (name, lineno)"
| "declared_function (AsyncFunctionDef name lineno children) = Some (name, lineno)"
| "declared_function n = None"

fun declared_class :: "node \<Rightarrow> (string \<times> nat) option" where
  "declared_class (ClassDef name lineno children) = Some (name, lineno)"
| "declared_class n = None"

text \<open>The FunctionNode and the ClassNode built for a declaration in a file.\<close>

definition function_node :: "string \<Rightarrow> string \<times> nat \<Rightarrow> FunctionNode" where
  "function_node file_path d =
     \<lparr>func_id = function_id file_path (fst d), func_name = fst d,
      func_file_path = file_path, func_line_number = snd d\<rparr>"

definition class_node :: "string \<Rightarrow> string \<times> nat \<Rightarrow> ClassNode" where
  "class_node file_path d =
     \<lparr>class_id = function_id file_path (fst d), class_name = fst d,
      class_file_path = file_path, class_line_number = snd d\<rparr>"

text \<open>
  The name table that last-write-wins insertion builds from a sequence of
  FunctionNodes: \<open>map_of\<close> returns the first match, so the sequence is
  reversed.
\<close>

definition last_wins :: "FunctionNode list \<Rightarrow> (string \<rightharpoonup> string)" where
  "last_wins fs = map_of (rev (map (\<lambda>f. (func_name f, func_id f)) fs))"

text \<open>
  The syntax tree of a file, \<open>None\<close> when the file cannot be read or parsed.
\<close>

definition parsed_tree :: "environment \<Rightarrow> Path \<Rightarrow> node option" where
  "parsed_tree env file_path =
     (case read_file env file_path of
        None \<Rightarrow> None
      | Some content \<Rightarrow> ast_parse env content)"

text \<open>The FunctionNodes that the loop over \<^verbatim>\<open>ast.walk\<close> builds for a tree.\<close>

definition tree_functions :: "string \<Rightarrow> node \<Rightarrow> FunctionNode list" where
  "tree_functions file_path tree =
     map (function_node file_path) (List.map_filter declared_function (ast_walk tree))"

text \<open>All nodes below a node, itself included (depth first).\<close>

fun subnodes :: "node \<Rightarrow> node list"
  and subnodes_list :: "node list \<Rightarrow> node list" where
  "subnodes (FunctionDef name lineno children) =
     FunctionDef name lineno children # subnodes_list children"
| "subnodes (AsyncFunctionDef name lineno children) =
     AsyncFunctionDef name lineno children # subnodes_list children"
| "subnodes (ClassDef name lineno children) =
     ClassDef name lineno children # subnodes_list children"
| "subnodes (Import names) = [Import names]"
| "subnodes (ImportFrom module names) = [ImportFrom module names]"
| "subnodes (Call func args) = Call func args # subnodes_list (func # args)"
| "subnodes (Name ident) = [Name ident]"
| "subnodes (Attribute val attr) = Attribute val attr # subnodes val"
| "subnodes (Other children) = Other children # subnodes_list children"
| "subnodes_list [] = []"
| "subnodes_list (n # ns) = subnodes n @ subnodes_list ns"

text \<open>The invariant of the driver loop about the source side of the edges.\<close>

definition sources_exist :: "RepositoryData \<Rightarrow> bool" where
  "sources_exist d \<longleftrightarrow>
     (\<forall>i \<in> set (imports d). \<exists>f \<in> set (files d). relative_path f = from_file i) \<and>
     (\<forall>c \<in> set (calls d). \<exists>fn \<in> set (functions d). func_id fn = from_function c)"

section \<open>Neo4jIngester (ingester.py)\<close>

text \<open>
  The graph store, as far as \<^verbatim>\<open>ingest_files\<close>, \<^verbatim>\<open>ingest_functions\<close> and
  \<^verbatim>\<open>ingest_calls\<close> read and write it: the File nodes (their \<^verbatim>\<open>path\<close>, which the
  ingester sets to the relative path), the Function nodes (their properties
  \<^verbatim>\<open>id\<close>, \<^verbatim>\<open>name\<close>, \<^verbatim>\<open>line_number\<close>), and the \<^verbatim>\<open>DEFINES\<close> and \<^verbatim>\<open>CALLS\<close>
  relationships, each given by the keys of its two end nodes.
  \<open>func_id_unique\<close> says that the uniqueness constraint on \<^verbatim>\<open>Function.id\<close>,
  which \<^verbatim>\<open>create_constraints\<close> requests, is in force. Class nodes and
  \<^verbatim>\<open>IMPORTS\<close> relationships are no part of this state: the three functions
  neither read nor write them.
\<close>

record Neo4jStore =
  file_nodes :: "string list"
  function_nodes :: "(string \<times> string \<times> nat) list"
  defines_rels :: "(string \<times> string) list"
  calls_rels :: "(string \<times> string) list"
  func_id_unique :: bool

datatype ingest_error = ConstraintError

text \<open>
  \<^verbatim>\<open>ingest_files\<close>: one \<^verbatim>\<open>MERGE\<close> of a File node for each FileNode; \<^verbatim>\<open>MERGE\<close>
  creates the node unless one with these properties exists.
\<close>

definition ingest_files :: "FileNode list \<Rightarrow> Neo4jStore \<Rightarrow> Neo4jStore" where
  "ingest_files fs st =
     foldl (\<lambda>st f. st\<lparr>file_nodes := List.insert (relative_path f) (file_nodes st)\<rparr>) st fs"

text \<open>
  The number of Function nodes with a given id: the rows of
  \<^verbatim>\<open>MATCH (fn:Function {id: $id})\<close>.
\<close>

definition match_function :: "Neo4jStore \<Rightarrow> string \<Rightarrow> nat" where
  "match_function st i = length (filter (\<lambda>n. fst n = i) (function_nodes st))"

text \<open>
  One round of the loop of \<^verbatim>\<open>ingest_functions\<close>. The first statement merges
  the Function node; creating a second node with an id that exists violates
  the constraint, and the driver's exception leaves the function. The second
  statement merges a \<^verbatim>\<open>DEFINES\<close> relationship for every matching pair of a
  File and a Function node.
\<close>

definition ingest_function :: "Neo4jStore \<Rightarrow> FunctionNode \<Rightarrow> ingest_error + Neo4jStore" where
  "ingest_function st func =
     (let node = (func_id func, func_name func, func_line_number func) in
      if node \<notin> set (function_nodes st) \<and> func_id_unique st \<and>
         0 < match_function st (func_id func)
      then Inl ConstraintError
      else
        (let st1 = (if node \<in> set (function_nodes st) then st
                    else st\<lparr>function_nodes := function_nodes st @ [node]\<rparr>)
         in Inr (if func_file_path func \<in> set (file_nodes st1)
                 then st1\<lparr>defines_rels :=
                        List.insert (func_file_path func, func_id func) (defines_rels st1)\<rparr>
                 else st1)))"

fun ingest_functions :: "FunctionNode list \<Rightarrow> Neo4jStore \<Rightarrow> ingest_error + Neo4jStore" where
  "ingest_functions [] st = Inr st"
| "ingest_functions (func # rest) st =
     (case ingest_function st func of
        Inl e \<Rightarrow> Inl e
      | Inr st' \<Rightarrow> ingest_functions rest st')"

text \<open>
  One round of the loop of \<^verbatim>\<open>ingest_calls\<close>, on the store and the counter
  \<^verbatim>\<open>call_count\<close>: \<^verbatim>\<open>function_map.get\<close>, the truthiness test of its result and
  the statement that matches both Function nodes and merges a \<^verbatim>\<open>CALLS\<close>
  relationship for every matching pair; \<^verbatim>\<open>created\<close> is the number of pairs.
\<close>

definition ingest_call ::
  "(string \<rightharpoonup> string) \<Rightarrow> Neo4jStore \<times> nat \<Rightarrow> CallRelation \<Rightarrow> Neo4jStore \<times> nat" where
  "ingest_call fm state call =
     (let st = fst state; call_count = snd state;
          to_function_id = fm (to_function call)
      in if truthy to_function_id then
           (let created = match_function st (from_function call) *
                          match_function st (the to_function_id)
            in if 0 < created
               then (st\<lparr>calls_rels :=
                        List.insert (from_function call, the to_function_id) (calls_rels st)\<rparr>,
                     call_count + 1)
               else (st, call_count))
         else (st, call_count))"

text \<open>
  \<^verbatim>\<open>ingest_calls\<close>: nothing happens for an empty list; otherwise the loop
  runs from the counter 0. The result is the store and the count that the
  function prints (\<open>None\<close> after the early return).
\<close>

definition ingest_calls ::
  "CallRelation list \<Rightarrow> (string \<rightharpoonup> string) \<Rightarrow> Neo4jStore \<Rightarrow> Neo4jStore \<times> nat option" where
  "ingest_calls cs fm st =
     (if cs = [] then (st, None)
      else (case foldl (ingest_call fm) (st, 0) cs of
              (st', call_count) \<Rightarrow> (st', Some call_count)))"

text \<open>The empty store with the constraint in force.\<close>

definition empty_store :: Neo4jStore where
  "empty_store = \<lparr>file_nodes = [], function_nodes = [], defines_rels = [],
                   calls_rels = [], func_id_unique = True\<rparr>"

text \<open>
  The Call-edges that resolve against a store: the name is in the table with
  a non-empty id, and both Function nodes exist.
\<close>

definition resolved_edges ::
  "CallRelation list \<Rightarrow> (string \<rightharpoonup> string) \<Rightarrow> Neo4jStore \<Rightarrow> (string \<times> string) set" where
  "resolved_edges cs fm st =
     {(from_function c, tid) | c tid.
        c \<in> set cs \<and> fm (to_function c) = Some tid \<and> tid \<noteq> [] \<and>
        0 < match_function st (from_function c) \<and> 0 < match_function st tid}"

text \<open>
  The names of the function declarations in the files that parse, in
  discovery order.
\<close>

definition declared_function_names :: "environment \<Rightarrow> Path list \<Rightarrow> string list" where
  "declared_function_names env python_files =
     concat (map (\<lambda>p. case parsed_tree env p of
                          None \<Rightarrow> []
                        | Some tree \<Rightarrow>
                            map fst (List.map_filter declared_function (ast_walk tree)))
               python_files)"

section \<open>A fixture repository\<close>

text \<open>
  Five files under \<^verbatim>\<open>/repo\<close>, with the trees that \<^verbatim>\<open>ast.parse\<close> returns for
  their texts (a module node; the children of a function are its
  \<^verbatim>\<open>arguments\<close> node and its body): \<^verbatim>\<open>a.py\<close> defines \<^verbatim>\<open>foo\<close>; \<^verbatim>\<open>b.py\<close>
  imports it and defines \<^verbatim>\<open>bar\<close>, which calls \<^verbatim>\<open>foo()\<close>; \<^verbatim>\<open>bad.py\<close> is the
  truncated text \<^verbatim>\<open>def (\<close>, a syntax error; \<^verbatim>\<open>pkg/c.py\<close> defines \<^verbatim>\<open>dup\<close>;
  \<^verbatim>\<open>pkg/d.py\<close> has a class \<^verbatim>\<open>K\<close> with an async method \<^verbatim>\<open>dup\<close> that calls
  \<^verbatim>\<open>self.helper()\<close>. No other path can be read, and the visitor raises on no
  tree.
\<close>

definition tree_a :: node where
  "tree_a = Other [FunctionDef ''foo'' 1 [Other [], Other []]]"

definition tree_b :: node where
  "tree_b =
     Other [ImportFrom (Some ''a'') [\<lparr>alias_name = ''foo'', asname = None\<rparr>],
            FunctionDef ''bar'' 2 [Other [], Other [Call (Name ''foo'') []]]]"

definition tree_c :: node where
  "tree_c = Other [FunctionDef ''dup'' 1 [Other [], Other []]]"

definition tree_d :: node where
  "tree_d =
     Other [ClassDef ''K'' 1
       [AsyncFunctionDef ''dup'' 2
          [Other [Other []], Other [Call (Attribute (Name ''self'') ''helper'') []]]]]"

definition fixture_env :: environment where
  "fixture_env =
     \<lparr>read_file = (\<lambda>p.
        if p = [''repo'', ''a.py''] then Some ''def foo(): pass''
        else if p = [''repo'', ''b.py'']
          then Some (''from a import foo'' @ [CHR 0x0A] @ ''def bar(): foo()'')
        else if p = [''repo'', ''bad.py''] then Some ''def (''
        else if p = [''repo'', ''pkg'', ''c.py''] then Some ''def dup(): pass''
        else if p = [''repo'', ''pkg'', ''d.py'']
          then Some (''class K:'' @ [CHR 0x0A] @ ''    async def dup(self): self.helper()'')
        else None),
      ast_parse = (\<lambda>s.
        if s = ''def foo(): pass'' then Some tree_a
        else if s = ''from a import foo'' @ [CHR 0x0A] @ ''def bar(): foo()'' then Some tree_b
        else if s = ''def dup(): pass'' then Some tree_c
        else if s = ''class K:'' @ [CHR 0x0A] @ ''    async def dup(self): self.helper()''
          then Some tree_d
        else None),
      recursion_error = (\<lambda>tree. False)\<rparr>"


definition fixture_files :: "Path list" where
  "fixture_files =
     [[''repo'', ''a.py''], [''repo'', ''bad.py''], [''repo'', ''b.py''],
      [''repo'', ''pkg'', ''c.py''], [''repo'', ''pkg'', ''d.py'']]"

definition fixture_data :: RepositoryData where
  "fixture_data = snd (parse_repository fixture_env [''repo''] fixture_files)"

text \<open>The aggregate for the two files \<^verbatim>\<open>a.py\<close> and \<^verbatim>\<open>b.py\<close> of the fixture.\<close>

definition fixture_ab :: RepositoryData where
  "fixture_ab =
     snd (parse_repository fixture_env [''repo''] [[''repo'', ''a.py''], [''repo'', ''b.py'']])"

section \<open>Properties of the repository driver\<close>


lemma parse_file_failed:
  "parse_fails env file_path \<Longrightarrow> parse_file env repo_path file_path data = (False, data)"
  by (simp add: parse_file_def parse_fails_def split: option.splits)


lemma parse_fails_file_fails: "parse_fails env p \<Longrightarrow> file_fails env p"
  by (simp add: parse_fails_def file_fails_def split: option.splits)







text \<open>
  Claim C10. When reading the file or parsing its text raises,
  \<^verbatim>\<open>parse_file\<close> returns \<^verbatim>\<open>False\<close> and the whole aggregate (all five
  sequences and the name table) is the one it was called with.
\<close>

theorem parse_file_failure_atomic:
  "parse_fails env file_path \<Longrightarrow>
   parse_file env repo_path file_path data = (False, data)"
  by (simp add: parse_file_def parse_fails_def split: option.splits)

theorem parse_file_failure_atomic_witness:
  "parse_fails fixture_env [''repo'', ''bad.py''] \<and>
   parse_fails fixture_env [''repo'', ''missing.py''] \<and>
   parse_file fixture_env [''repo''] [''repo'', ''bad.py'']
     (snd (parse_repository fixture_env [''repo''] [[''repo'', ''a.py'']])) =
     (False, snd (parse_repository fixture_env [''repo''] [[''repo'', ''a.py'']]))"
proof -
  have bad: "parse_fails fixture_env [''repo'', ''bad.py'']"
    by (simp add: parse_fails_def fixture_env_def)
  have missing: "parse_fails fixture_env [''repo'', ''missing.py'']"
    by (simp add: parse_fails_def fixture_env_def)
  from bad missing parse_file_failure_atomic [OF bad] show ?thesis
    by blast
qed

section \<open>Properties of the call visitor\<close>

lemma visit_scoped:
  "visit fp n v = v\<lparr>visitor_calls := visitor_calls v @ scoped_calls fp (current_function v) n\<rparr>"
  "generic_visit fp ns v =
     v\<lparr>visitor_calls := visitor_calls v @ scoped_calls_list fp (current_function v) ns\<rparr>"
  by (induction fp n v and fp ns v rule: visit_generic_visit.induct)
     (simp_all add: Let_def)

lemma scoped_calls_list_append:
  "scoped_calls_list fp s (xs @ ys) = scoped_calls_list fp s xs @ scoped_calls_list fp s ys"
  by (induction xs) simp_all

lemma emitted_scoped: "emitted fp s n = scoped_calls fp s n"
  by (simp add: emitted_def visit_scoped)

lemma emitted_all_scoped: "emitted_all fp s ns = scoped_calls_list fp s ns"
  by (simp add: emitted_all_def visit_scoped)

lemma visit_restores: "current_function (visit fp n v) = current_function v"
  by (simp add: visit_scoped)

lemma function_id_inject: "function_id fp h = function_id fp g \<longleftrightarrow> h = g"
  by (simp add: function_id_def)

text \<open>
  Claim C1. A visit leaves the current-function slot as it found it;
  entering a function or async-function declaration sets the slot to the
  declaration's id for the visit of its children and restores the old value
  afterwards. So for a module with a top-level function \<open>g\<close> that contains a
  nested function \<open>h\<close> whose body has the statement \<open>x(...)\<close>, the edge of
  that call goes from the id of \<open>h\<close>; what stands before and after \<open>h\<close> in
  \<open>g\<close> is recorded for \<open>g\<close> again, and the two ids differ when the names do.
\<close>

theorem nested_function_call_attribution:
  assumes "x \<noteq> []"
    and "Dg = FunctionDef \<or> Dg = AsyncFunctionDef"
    and "Dh = FunctionDef \<or> Dh = AsyncFunctionDef"
  shows "current_function (visit fp n v) = current_function v \<and>
    visit fp (Dh h lh body) v =
      (generic_visit fp body (v\<lparr>current_function := Some (function_id fp h)\<rparr>))
        \<lparr>current_function := current_function v\<rparr> \<and>
    parse_function_calls
      (Other (pre @ [Dg g lg (pre_g @
         [Dh h lh (pre_h @ [Other [Call (Name x) args]] @ post_h)] @ post_g)] @ post)) fp =
      emitted_all fp None pre @
      emitted_all fp (Some (function_id fp g)) pre_g @
      emitted_all fp (Some (function_id fp h)) pre_h @
      [\<lparr>from_function = function_id fp h, to_function = x\<rparr>] @
      emitted_all fp (Some (function_id fp h)) args @
      emitted_all fp (Some (function_id fp h)) post_h @
      emitted_all fp (Some (function_id fp g)) post_g @
      emitted_all fp None post \<and>
    (h \<noteq> g \<longrightarrow> function_id fp h \<noteq> function_id fp g)"
proof -
  have id_ne: "function_id fp h \<noteq> []" for h
    by (simp add: function_id_def)
  have enter: "visit fp (Dh h lh body) v =
      (generic_visit fp body (v\<lparr>current_function := Some (function_id fp h)\<rparr>))
        \<lparr>current_function := current_function v\<rparr>"
    using assms(3) by (auto simp: Let_def)
  have inner: "scoped_calls fp s (Dh h lh (pre_h @ [Other [Call (Name x) args]] @ post_h)) =
      scoped_calls_list fp (Some (function_id fp h)) pre_h @
      [\<lparr>from_function = function_id fp h, to_function = x\<rparr>] @
      scoped_calls_list fp (Some (function_id fp h)) args @
      scoped_calls_list fp (Some (function_id fp h)) post_h" for s
    using assms(1,3) by (auto simp: scoped_calls_list_append id_ne)
  have outer: "scoped_calls fp s (Dg g lg (pre_g @
         [Dh h lh (pre_h @ [Other [Call (Name x) args]] @ post_h)] @ post_g)) =
      scoped_calls_list fp (Some (function_id fp g)) pre_g @
      scoped_calls fp (Some (function_id fp g))
        (Dh h lh (pre_h @ [Other [Call (Name x) args]] @ post_h)) @
      scoped_calls_list fp (Some (function_id fp g)) post_g" for s
    using assms(2) by (auto simp: scoped_calls_list_append)
  have "parse_function_calls
      (Other (pre @ [Dg g lg (pre_g @
         [Dh h lh (pre_h @ [Other [Call (Name x) args]] @ post_h)] @ post_g)] @ post)) fp =
      scoped_calls_list fp None pre @
      scoped_calls fp None (Dg g lg (pre_g @
         [Dh h lh (pre_h @ [Other [Call (Name x) args]] @ post_h)] @ post_g)) @
      scoped_calls_list fp None post"
    by (simp add: parse_function_calls_def visit_scoped scoped_calls_list_append)
  with enter outer [of None] inner [of "Some (function_id fp g)"] show ?thesis
    by (simp add: emitted_all_scoped visit_restores function_id_inject)
qed

theorem nested_function_call_attribution_witness:
  "''x'' \<noteq> [] \<and>
   parse_function_calls
     (Other [FunctionDef ''g'' 1 [Other [],
        AsyncFunctionDef ''h'' 2 [Other [], Other [Call (Name ''x'') []]],
        Other [Call (Name ''h'') []]]]) ''m.py'' =
     [\<lparr>from_function = ''m.py::h'', to_function = ''x''\<rparr>,
      \<lparr>from_function = ''m.py::g'', to_function = ''h''\<rparr>] \<and>
   ''m.py::h'' \<noteq> ''m.py::g''"
proof -
  have x: "''x'' \<noteq> ([] :: string)"
    by simp
  have dg: "FunctionDef = FunctionDef \<or> FunctionDef = AsyncFunctionDef"
    by simp
  have dh: "AsyncFunctionDef = FunctionDef \<or> AsyncFunctionDef = AsyncFunctionDef"
    by simp
  from nested_function_call_attribution [OF x dg dh, where fp = "''m.py''" and g = "''g''"
      and h = "''h''" and lg = 1 and lh = 2 and pre = "[]" and post = "[]"
      and pre_g = "[Other []]" and pre_h = "[Other []]" and args = "[]" and post_h = "[]"
      and post_g = "[Other [Call (Name ''h'') []]]"]
  show ?thesis
    by (simp add: emitted_all_def function_id_def)
qed

text \<open>
  Claim C3. The candidate name of a call follows the shape of the callee:
  a bare name gives the identifier, an attribute of a bare name gives
  \<open>receiver.attribute\<close>, an attribute of any other expression gives the
  attribute alone, and every other shape gives no candidate, in which case
  the visit of the call records nothing for it. Inside a function a
  non-empty candidate is recorded as one edge from the current function.
\<close>

theorem call_candidate_name:
  "call_name (Name ident) = Some ident \<and>
   call_name (Attribute (Name receiver) attr) = Some (receiver @ ''.'' @ attr) \<and>
   ((\<forall>r. val \<noteq> Name r) \<longrightarrow> call_name (Attribute val attr) = Some attr) \<and>
   ((\<forall>i. func \<noteq> Name i) \<and> (\<forall>w a. func \<noteq> Attribute w a) \<longrightarrow>
      call_name func = None \<and>
      visit fp (Call func args) v = generic_visit fp (func # args) v) \<and>
   (current_function v = Some cur \<and> cur \<noteq> [] \<and> call_name func = Some c \<and> c \<noteq> [] \<longrightarrow>
      visit fp (Call func args) v =
        generic_visit fp (func # args)
          (v\<lparr>visitor_calls := visitor_calls v @
               [\<lparr>from_function = cur, to_function = c\<rparr>]\<rparr>))"
proof -
  have attr: "call_name (Attribute val attr) = Some attr" if "\<forall>r. val \<noteq> Name r"
    using that by (cases val) simp_all
  have other: "call_name func = None"
    if "\<forall>i. func \<noteq> Name i" and "\<forall>w a. func \<noteq> Attribute w a"
    using that by (cases func) simp_all
  show ?thesis
    using attr other by (simp add: Let_def)
qed

theorem call_candidate_name_witness:
  "call_name (Attribute (Call (Name ''make'') []) ''run'') = Some ''run'' \<and>
   call_name (Other [Name ''table'', Name ''i'']) = None \<and>
   visit ''m.py'' (Call (Other [Name ''table'', Name ''i'']) [])
     \<lparr>current_function = Some ''m.py::f'', visitor_calls = []\<rparr> =
     \<lparr>current_function = Some ''m.py::f'', visitor_calls = []\<rparr> \<and>
   visit ''m.py'' (Call (Attribute (Name ''obj'') ''method'') [])
     \<lparr>current_function = Some ''m.py::f'', visitor_calls = []\<rparr> =
     \<lparr>current_function = Some ''m.py::f'',
      visitor_calls = [\<lparr>from_function = ''m.py::f'', to_function = ''obj.method''\<rparr>]\<rparr>"
  using call_candidate_name [where val = "Call (Name ''make'') []" and attr = "''run''"
      and func = "Other [Name ''table'', Name ''i'']" and fp = "''m.py''" and args = "[]"
      and v = "\<lparr>current_function = Some ''m.py::f'', visitor_calls = []\<rparr>"]
    call_candidate_name [where func = "Attribute (Name ''obj'') ''method''"
      and fp = "''m.py''" and args = "[]" and cur = "''m.py::f''" and c = "''obj.method''"
      and v = "\<lparr>current_function = Some ''m.py::f'', visitor_calls = []\<rparr>"]
  by simp

lemma scoped_calls_top_functions:
  "\<not> truthy s \<Longrightarrow>
     scoped_calls fp s n = concat (map (scoped_calls fp None) (top_functions n))"
  "\<not> truthy s \<Longrightarrow>
     scoped_calls_list fp s ns = concat (map (scoped_calls fp None) (top_functions_list ns))"
  by (induction fp s n and fp s ns rule: scoped_calls_scoped_calls_list.induct) simp_all

text \<open>
  Claim C6. A call visited while no function is current adds no edge: the
  visit only descends into the callee and the arguments. For a whole tree
  the recorded edges are exactly those of its outermost function
  declarations, so nothing outside a function declaration (module level,
  class bodies) contributes, and a tree without function declarations
  yields no edge at all.
\<close>

theorem module_level_calls_dropped:
  "(\<not> truthy (current_function v) \<longrightarrow>
      visit fp (Call func args) v = generic_visit fp (func # args) v) \<and>
   parse_function_calls tree fp = concat (map (emitted fp None) (top_functions tree)) \<and>
   (top_functions tree = [] \<longrightarrow> parse_function_calls tree fp = [])"
proof -
  have "parse_function_calls tree fp = concat (map (emitted fp None) (top_functions tree))"
    using scoped_calls_top_functions(1) [of None fp tree]
    by (simp add: parse_function_calls_def visit_scoped emitted_scoped [abs_def])
  then show ?thesis
    by simp
qed

theorem module_level_calls_dropped_witness:
  "top_functions (Other [Other [Call (Name ''main'') [Call (Name ''args'') []]],
      ClassDef ''K'' 2 [Other [Call (Attribute (Name ''registry'') ''add'') []]]]) = [] \<and>
   parse_function_calls (Other [Other [Call (Name ''main'') [Call (Name ''args'') []]],
      ClassDef ''K'' 2 [Other [Call (Attribute (Name ''registry'') ''add'') []]]]) ''m.py'' = [] \<and>
   visit ''m.py'' (Call (Name ''main'') [])
     \<lparr>current_function = None, visitor_calls = []\<rparr> =
     \<lparr>current_function = None, visitor_calls = []\<rparr>"
proof -
  have top: "top_functions (Other [Other [Call (Name ''main'') [Call (Name ''args'') []]],
      ClassDef ''K'' 2 [Other [Call (Attribute (Name ''registry'') ''add'') []]]]) = []"
    by simp
  have scope: "\<not> truthy (current_function \<lparr>current_function = None, visitor_calls = []\<rparr>)"
    by simp
  from top scope
    module_level_calls_dropped [where fp = "''m.py''"
      and tree = "Other [Other [Call (Name ''main'') [Call (Name ''args'') []]],
        ClassDef ''K'' 2 [Other [Call (Attribute (Name ''registry'') ''add'') []]]]"]
    module_level_calls_dropped [where fp = "''m.py''" and func = "Name ''main''"
      and args = "[]" and v = "\<lparr>current_function = None, visitor_calls = []\<rparr>"]
  show ?thesis
    by simp
qed

section \<open>Properties of the import extractor\<close>

lemma str_split_not_Nil: "str_split sep s \<noteq> []"
  by (induction s) (auto split: list.splits)

lemma foldl_join_component:
  "acc \<noteq> [] \<Longrightarrow> last acc \<noteq> CHR ''/'' \<Longrightarrow>
   list_all (\<lambda>b. b \<noteq> [] \<and> CHR ''/'' \<notin> set b) p \<Longrightarrow>
   foldl join_component acc p = acc @ concat (map (\<lambda>b. ''/'' @ b) p)"
proof (induction p arbitrary: acc)
  case Nil
  show ?case by simp
next
  case (Cons b p)
  from Cons.prems have b: "b \<noteq> []" "CHR ''/'' \<notin> set b"
    by simp_all
  then have "hd b \<noteq> CHR ''/''" "last b \<noteq> CHR ''/''"
    by (metis hd_in_set, metis last_in_set)
  with Cons.prems b have step: "join_component acc b = acc @ ''/'' @ b"
    and ok: "join_component acc b \<noteq> []" "last (join_component acc b) \<noteq> CHR ''/''"
    by (simp_all add: join_component_def)
  from Cons.prems have "list_all (\<lambda>b. b \<noteq> [] \<and> CHR ''/'' \<notin> set b) p"
    by simp
  from Cons.IH [OF ok this] show ?case
    by (simp add: step)
qed

lemma join_sep_Cons: "join_sep (a # p) = a @ concat (map (\<lambda>b. ''/'' @ b) p)"
  by (induction p arbitrary: a) simp_all

lemma potential_path_dotted:
  assumes "dotted_name m"
  shows "potential_path m = dotted_to_path m"
proof (cases "str_split CHR ''.'' m")
  case Nil
  then show ?thesis using str_split_not_Nil by blast
next
  case (Cons a p)
  with assms have a: "a \<noteq> []" "CHR ''/'' \<notin> set a"
    and p: "list_all (\<lambda>b. b \<noteq> [] \<and> CHR ''/'' \<notin> set b) p"
    by (simp_all add: dotted_name_def)
  from a have "last a \<noteq> CHR ''/''"
    by (metis last_in_set)
  from foldl_join_component [OF a(1) this p] Cons show ?thesis
    by (simp add: potential_path_def dotted_to_path_def os_path_join_def join_sep_Cons)
qed

lemma foldl_snoc_map: "foldl (\<lambda>acc a. acc @ [f a]) imps names = imps @ map f names"
  by (induction names arbitrary: imps) simp_all

lemma dotted_name_not_empty: "dotted_name m \<Longrightarrow> m \<noteq> []"
  by (auto simp: dotted_name_def)

lemma import_node_edges:
  "list_all dotted_name (module_names n) \<Longrightarrow>
   import_node file_path n imps = imps @ import_edges file_path n"
proof (cases n)
  case (Import names)
  assume "list_all dotted_name (module_names n)"
  with Import have "\<forall>a \<in> set names. potential_path (alias_name a) = dotted_to_path (alias_name a)"
    by (simp add: list_all_iff potential_path_dotted)
  with Import show ?thesis
    by (simp add: import_node_def foldl_snoc_map)
next
  case (ImportFrom module names)
  assume wf: "list_all dotted_name (module_names n)"
  show ?thesis
  proof (cases module)
    case None
    with ImportFrom show ?thesis by (simp add: import_node_def)
  next
    case (Some m)
    with wf ImportFrom have "dotted_name m" by simp
    with ImportFrom Some show ?thesis
      by (simp add: import_node_def foldl_snoc_map potential_path_dotted dotted_name_not_empty)
  qed
qed (simp_all add: import_node_def)

lemma foldl_import_node:
  "list_all (\<lambda>n. list_all dotted_name (module_names n)) ns \<Longrightarrow>
   foldl (\<lambda>imps n. import_node file_path n imps) acc ns =
     acc @ concat (map (import_edges file_path) ns)"
  by (induction ns arbitrary: acc) (simp_all add: import_node_edges)

text \<open>
  Claim C7. On a tree whose module names are well-formed dotted names,
  \<^verbatim>\<open>parse_imports\<close> returns, in the order of \<^verbatim>\<open>ast.walk\<close>, one edge for each
  alias of every plain import (target file: the module path split on the
  dot, joined with the separator, plus \<open>.py\<close>; imported name: the module
  path) and one edge for each symbol of every from-import with a module name
  (same target construction from the module, imported name
  \<open>module.symbol\<close>); a from-import without module name gives no edge.
\<close>

theorem parse_imports_edges:
  "list_all (\<lambda>n. list_all dotted_name (module_names n)) (ast_walk tree) \<Longrightarrow>
   parse_imports tree file_path = concat (map (import_edges file_path) (ast_walk tree))"
  by (simp add: parse_imports_def foldl_import_node)

theorem parse_imports_edges_witness:
  "list_all (\<lambda>n. list_all dotted_name (module_names n)) (ast_walk tree_imports) \<and>
   parse_imports tree_imports ''m.py'' =
     [\<lparr>from_file = ''m.py'', to_file = ''os/path.py'', import_name = ''os.path''\<rparr>,
      \<lparr>from_file = ''m.py'', to_file = ''sys.py'', import_name = ''sys''\<rparr>,
      \<lparr>from_file = ''m.py'', to_file = ''pkg/mod.py'', import_name = ''pkg.mod.a''\<rparr>,
      \<lparr>from_file = ''m.py'', to_file = ''pkg/mod.py'', import_name = ''pkg.mod.b''\<rparr>]"
proof -
  have walk: "ast_walk tree_imports =
     [tree_imports,
      Import [\<lparr>alias_name = ''os.path'', asname = None\<rparr>,
              \<lparr>alias_name = ''sys'', asname = Some ''system''\<rparr>],
      FunctionDef ''f'' 2
        [Other [], ImportFrom (Some ''pkg.mod'')
           [\<lparr>alias_name = ''a'', asname = None\<rparr>, \<lparr>alias_name = ''b'', asname = None\<rparr>]],
      ImportFrom None [\<lparr>alias_name = ''sibling'', asname = None\<rparr>],
      Other [],
      ImportFrom (Some ''pkg.mod'')
        [\<lparr>alias_name = ''a'', asname = None\<rparr>, \<lparr>alias_name = ''b'', asname = None\<rparr>]]"
    by (simp add: ast_walk_def tree_imports_def)
  have wf: "list_all (\<lambda>n. list_all dotted_name (module_names n)) (ast_walk tree_imports)"
    unfolding walk by (simp add: tree_imports_def dotted_name_def)
  from parse_imports_edges [OF wf, of "''m.py''"] wf show ?thesis
    unfolding walk by (simp add: tree_imports_def dotted_to_path_def)
qed

section \<open>Invariants of the aggregate\<close>

lemma subnodes_children: "subnodes n = n # subnodes_list (iter_child_nodes n)"
  by (cases n) simp_all

lemma subnodes_list_append:
  "subnodes_list (xs @ ys) = subnodes_list xs @ subnodes_list ys"
  by (induction xs) simp_all

lemma set_ast_walk_todo: "set (ast_walk_todo todo) = set (subnodes_list todo)"
  by (induction todo rule: ast_walk_todo.induct)
     (auto simp: subnodes_list_append subnodes_children simp del: subnodes.simps)

lemma set_ast_walk: "set (ast_walk tree) = set (subnodes tree)"
  by (simp add: ast_walk_def set_ast_walk_todo subnodes_children [of tree])

lemma subnodes_self: "n \<in> set (subnodes n)"
  by (simp add: subnodes_children [of n])

lemma scoped_calls_source:
  "c \<in> set (scoped_calls fp s n) \<Longrightarrow>
     (truthy s \<and> from_function c = the s) \<or>
     (\<exists>m \<in> set (subnodes n). \<exists>d. declared_function m = Some d \<and>
        from_function c = function_id fp (fst d))"
  "c \<in> set (scoped_calls_list fp s ns) \<Longrightarrow>
     (truthy s \<and> from_function c = the s) \<or>
     (\<exists>m \<in> set (subnodes_list ns). \<exists>d. declared_function m = Some d \<and>
        from_function c = function_id fp (fst d))"
proof (induction fp s n and fp s ns rule: scoped_calls_scoped_calls_list.induct)
  case (1 fp s name lineno children)
  then show ?case by fastforce
next
  case (2 fp s name lineno children)
  then show ?case by fastforce
next
  case (3 fp s func args)
  then show ?case by (auto split: if_splits)
next
  case (11 fp s n ns)
  then show ?case by auto
qed auto

lemma parse_function_calls_source:
  assumes "c \<in> set (parse_function_calls tree fp)"
  shows "\<exists>m \<in> set (ast_walk tree). \<exists>d. declared_function m = Some d \<and>
     from_function c = function_id fp (fst d)"
  using scoped_calls_source(1) [of c fp None tree] assms
  by (simp add: parse_function_calls_def visit_scoped set_ast_walk)

lemma foldl_extract_node:
  "foldl (extract_node fp) (fs, cs, fm) ns =
     (fs @ map (function_node fp) (List.map_filter declared_function ns),
      cs @ map (class_node fp) (List.map_filter declared_class ns),
      fm ++ last_wins (map (function_node fp) (List.map_filter declared_function ns)))"
proof (induction ns arbitrary: fs cs fm)
  case Nil
  show ?case by (simp add: List.map_filter_simps last_wins_def)
next
  case (Cons n ns)
  show ?case
    by (cases n)
      (simp_all add: Cons.IH List.map_filter_simps last_wins_def function_node_def
        class_node_def map_add_def fun_eq_iff split: option.splits)
qed

lemma parse_fails_parsed_tree: "parse_fails env p \<longleftrightarrow> parsed_tree env p = None"
  by (simp add: parse_fails_def parsed_tree_def split: option.splits)

lemma parse_file_parsed:
  assumes "parsed_tree env p = Some tree"
  shows "parse_file env repo_path p d =
    (\<not> recursion_error env tree,
     d\<lparr>files := files d @
                 [\<lparr>path = str_abs p, relative_path = get_relative_path repo_path p\<rparr>],
              imports := imports d @ parse_imports tree (get_relative_path repo_path p),
              function_map := function_map d ++
                 last_wins (tree_functions (get_relative_path repo_path p) tree),
              functions := functions d @ tree_functions (get_relative_path repo_path p) tree,
              classes := classes d @
                 map (class_node (get_relative_path repo_path p))
                   (List.map_filter declared_class (ast_walk tree)),
              calls := calls d @
                 (if recursion_error env tree then []
                  else parse_function_calls tree (get_relative_path repo_path p))\<rparr>)"
proof -
  from assms obtain content
    where "read_file env p = Some content" and "ast_parse env content = Some tree"
    by (auto simp: parsed_tree_def split: option.splits)
  then show ?thesis
    by (simp add: parse_file_def extract_functions_and_classes_def
        foldl_extract_node tree_functions_def Let_def)
qed

text \<open>
  The handler's path after a successful \<^verbatim>\<open>ast.parse\<close>: when the visitor raises,
  the file leaves its FileNode, imports, functions, classes and table entries,
  and no call edge.
\<close>

lemma parse_file_recursion_error:
  assumes "parsed_tree env p = Some tree" and "recursion_error env tree"
  shows "parse_file env repo_path p d =
    (False,
     d\<lparr>files := files d @
          [\<lparr>path = str_abs p, relative_path = get_relative_path repo_path p\<rparr>],
       imports := imports d @ parse_imports tree (get_relative_path repo_path p),
       function_map := function_map d ++
          last_wins (tree_functions (get_relative_path repo_path p) tree),
       functions := functions d @ tree_functions (get_relative_path repo_path p) tree,
       classes := classes d @
          map (class_node (get_relative_path repo_path p))
            (List.map_filter declared_class (ast_walk tree))\<rparr>)"
  using assms(2) by (simp add: parse_file_parsed [OF assms(1)])

lemma parse_imports_from_file:
  "i \<in> set (parse_imports tree fp) \<Longrightarrow> from_file i = fp"
proof -
  have node: "\<forall>i \<in> set (import_node fp n imps). from_file i = fp"
    if "\<forall>i \<in> set imps. from_file i = fp" for n imps
    using that by (cases n) (auto simp: import_node_def foldl_snoc_map)
  have "\<forall>i \<in> set (foldl (\<lambda>imps n. import_node fp n imps) acc ns). from_file i = fp"
    if "\<forall>i \<in> set acc. from_file i = fp" for acc ns
    using that
  proof (induction ns arbitrary: acc)
    case Nil
    then show ?case by simp
  next
    case (Cons n ns)
    from Cons.IH [OF node [OF Cons.prems]] show ?case by simp
  qed
  from this [of "[]" "ast_walk tree"] show "i \<in> set (parse_imports tree fp) \<Longrightarrow> from_file i = fp"
    by (simp add: parse_imports_def)
qed

lemma parse_function_calls_in_tree_functions:
  assumes "c \<in> set (parse_function_calls tree fp)"
  shows "from_function c \<in> func_id ` set (tree_functions fp tree)"
proof -
  from parse_function_calls_source [OF assms] obtain m d
    where m: "m \<in> set (ast_walk tree)" and d: "declared_function m = Some d"
      and c: "from_function c = function_id fp (fst d)"
    by blast
  from m d have "d \<in> set (List.map_filter declared_function (ast_walk tree))"
    by (force simp: List.map_filter_def)
  then have "function_node fp d \<in> set (tree_functions fp tree)"
    by (simp add: tree_functions_def)
  moreover have "func_id (function_node fp d) = from_function c"
    by (simp add: function_node_def c)
  ultimately show ?thesis
    by force
qed

lemma last_wins_append: "last_wins (fs @ gs) = last_wins fs ++ last_wins gs"
  by (simp add: last_wins_def map_of_append)

lemma parse_file_invariant:
  assumes "sources_exist d" and "function_map d = last_wins (functions d)"
    and "parse_file env repo_path p d = (ok, d')"
  shows "sources_exist d' \<and> function_map d' = last_wins (functions d')"
proof (cases "parsed_tree env p")
  case None
  with assms show ?thesis
    by (simp add: parse_file_failed parse_fails_parsed_tree)
next
  case (Some tree)
  define cs where "cs = (if recursion_error env tree then []
      else parse_function_calls tree (get_relative_path repo_path p))"
  have cs: "set cs \<subseteq> set (parse_function_calls tree (get_relative_path repo_path p))"
    by (simp add: cs_def)
  from parse_file_parsed [OF Some, of repo_path d] assms(3)
  have d': "d' = d\<lparr>files := files d @
                 [\<lparr>path = str_abs p, relative_path = get_relative_path repo_path p\<rparr>],
              imports := imports d @ parse_imports tree (get_relative_path repo_path p),
              function_map := function_map d ++
                 last_wins (tree_functions (get_relative_path repo_path p) tree),
              functions := functions d @ tree_functions (get_relative_path repo_path p) tree,
              classes := classes d @
                 map (class_node (get_relative_path repo_path p))
                   (List.map_filter declared_class (ast_walk tree)),
              calls := calls d @ cs\<rparr>"
    unfolding cs_def by simp
  have "function_map d' = last_wins (functions d')"
    by (simp add: d' assms(2) last_wins_append)
  moreover have "sources_exist d'"
    using assms(1) parse_imports_from_file parse_function_calls_in_tree_functions cs
    unfolding sources_exist_def d' by (fastforce simp: image_iff)
  ultimately show ?thesis
    by simp
qed

lemma parse_loop_invariant:
  "sources_exist d \<Longrightarrow> function_map d = last_wins (functions d) \<Longrightarrow>
   sources_exist (snd (parse_loop env repo_path fs (n, d))) \<and>
   function_map (snd (parse_loop env repo_path fs (n, d))) =
     last_wins (functions (snd (parse_loop env repo_path fs (n, d))))"
proof (induction fs arbitrary: n d)
  case Nil
  then show ?case by simp
next
  case (Cons p fs)
  obtain ok d' where pf: "parse_file env repo_path p d = (ok, d')"
    by (cases "parse_file env repo_path p d")
  from parse_file_invariant [OF Cons.prems pf] Cons.IH [of d'] pf show ?case
    by simp
qed

lemma parse_repository_invariant:
  "sources_exist (snd (parse_repository env repo_path fs))"
  "function_map (snd (parse_repository env repo_path fs)) =
     last_wins (functions (snd (parse_repository env repo_path fs)))"
  using parse_loop_invariant [of empty_data env repo_path fs 0]
  by (simp_all add: parse_repository_def sources_exist_def empty_data_def last_wins_def)

lemma fixture_parsed:
  "parsed_tree fixture_env [''repo'', ''a.py''] = Some tree_a"
  "parsed_tree fixture_env [''repo'', ''bad.py''] = None"
  "parsed_tree fixture_env [''repo'', ''b.py''] = Some tree_b"
  "parsed_tree fixture_env [''repo'', ''pkg'', ''c.py''] = Some tree_c"
  "parsed_tree fixture_env [''repo'', ''pkg'', ''d.py''] = Some tree_d"
  by (simp_all add: parsed_tree_def fixture_env_def)

lemma fixture_relative:
  "get_relative_path [''repo''] [''repo'', ''a.py''] = ''a.py''"
  "get_relative_path [''repo''] [''repo'', ''b.py''] = ''b.py''"
  "get_relative_path [''repo''] [''repo'', ''pkg'', ''c.py''] = ''pkg/c.py''"
  "get_relative_path [''repo''] [''repo'', ''pkg'', ''d.py''] = ''pkg/d.py''"
  by (simp_all add: get_relative_path_def relative_to_def str_rel_def)

lemma fixture_walks:
  "ast_walk tree_a = [tree_a, FunctionDef ''foo'' 1 [Other [], Other []], Other [], Other []]"
  "ast_walk tree_b =
     [tree_b, ImportFrom (Some ''a'') [\<lparr>alias_name = ''foo'', asname = None\<rparr>],
      FunctionDef ''bar'' 2 [Other [], Other [Call (Name ''foo'') []]],
      Other [], Other [Call (Name ''foo'') []], Call (Name ''foo'') [], Name ''foo'']"
  "ast_walk tree_c = [tree_c, FunctionDef ''dup'' 1 [Other [], Other []], Other [], Other []]"
  "ast_walk tree_d =
     [tree_d,
      ClassDef ''K'' 1
       [AsyncFunctionDef ''dup'' 2
          [Other [Other []], Other [Call (Attribute (Name ''self'') ''helper'') []]]],
      AsyncFunctionDef ''dup'' 2
        [Other [Other []], Other [Call (Attribute (Name ''self'') ''helper'') []]],
      Other [Other []], Other [Call (Attribute (Name ''self'') ''helper'') []],
      Other [], Call (Attribute (Name ''self'') ''helper'') [],
      Attribute (Name ''self'') ''helper'', Name ''self'']"
  by (simp_all add: ast_walk_def tree_a_def tree_b_def tree_c_def tree_d_def)

lemma fixture_tree_functions:
  "tree_functions ''a.py'' tree_a =
     [\<lparr>func_id = ''a.py::foo'', func_name = ''foo'', func_file_path = ''a.py'',
       func_line_number = 1\<rparr>]"
  "tree_functions ''b.py'' tree_b =
     [\<lparr>func_id = ''b.py::bar'', func_name = ''bar'', func_file_path = ''b.py'',
       func_line_number = 2\<rparr>]"
  "tree_functions ''pkg/c.py'' tree_c =
     [\<lparr>func_id = ''pkg/c.py::dup'', func_name = ''dup'', func_file_path = ''pkg/c.py'',
       func_line_number = 1\<rparr>]"
  "tree_functions ''pkg/d.py'' tree_d =
     [\<lparr>func_id = ''pkg/d.py::dup'', func_name = ''dup'', func_file_path = ''pkg/d.py'',
       func_line_number = 2\<rparr>]"
  by (simp_all add: tree_functions_def fixture_walks List.map_filter_simps)
    (simp_all add: function_node_def function_id_def tree_a_def tree_b_def tree_c_def
      tree_d_def List.map_filter_simps)

lemma fixture_tree_calls:
  "parse_function_calls tree_a ''a.py'' = []"
  "parse_function_calls tree_b ''b.py'' = [\<lparr>from_function = ''b.py::bar'', to_function = ''foo''\<rparr>]"
  "parse_function_calls tree_c ''pkg/c.py'' = []"
  "parse_function_calls tree_d ''pkg/d.py'' =
     [\<lparr>from_function = ''pkg/d.py::dup'', to_function = ''self.helper''\<rparr>]"
  by (simp_all add: parse_function_calls_def tree_a_def tree_b_def tree_c_def tree_d_def
      function_id_def)

lemma fixture_tree_imports:
  "parse_imports tree_a ''a.py'' = []"
  "parse_imports tree_b ''b.py'' =
     [\<lparr>from_file = ''b.py'', to_file = ''a.py'', import_name = ''a.foo''\<rparr>]"
  "parse_imports tree_c ''pkg/c.py'' = []"
  "parse_imports tree_d ''pkg/d.py'' = []"
  by (simp_all add: parse_imports_def fixture_walks)
    (simp_all add: import_node_def tree_a_def tree_b_def tree_c_def tree_d_def
      potential_path_def os_path_join_def)

lemma fixture_recursion_error: "recursion_error fixture_env tree = False"
  by (simp add: fixture_env_def)

lemma fixture_data_parts:
  "map relative_path (files fixture_data) = [''a.py'', ''b.py'', ''pkg/c.py'', ''pkg/d.py'']"
  "functions fixture_data =
     [\<lparr>func_id = ''a.py::foo'', func_name = ''foo'', func_file_path = ''a.py'',
       func_line_number = 1\<rparr>,
      \<lparr>func_id = ''b.py::bar'', func_name = ''bar'', func_file_path = ''b.py'',
       func_line_number = 2\<rparr>,
      \<lparr>func_id = ''pkg/c.py::dup'', func_name = ''dup'', func_file_path = ''pkg/c.py'',
       func_line_number = 1\<rparr>,
      \<lparr>func_id = ''pkg/d.py::dup'', func_name = ''dup'', func_file_path = ''pkg/d.py'',
       func_line_number = 2\<rparr>]"
  "imports fixture_data =
     [\<lparr>from_file = ''b.py'', to_file = ''a.py'', import_name = ''a.foo''\<rparr>]"
  "calls fixture_data =
     [\<lparr>from_function = ''b.py::bar'', to_function = ''foo''\<rparr>,
      \<lparr>from_function = ''pkg/d.py::dup'', to_function = ''self.helper''\<rparr>]"
  by (simp_all add: fixture_data_def fixture_files_def parse_repository_def
      parse_file_parsed parse_file_failed parse_fails_parsed_tree fixture_parsed
      fixture_relative fixture_tree_functions fixture_tree_calls fixture_tree_imports
      fixture_recursion_error empty_data_def)

text \<open>
  Claim C8. In the aggregate that \<^verbatim>\<open>parse_repository\<close> returns, the
  \<^verbatim>\<open>from_file\<close> of every Import-edge is the relative path of a FileNode of
  the aggregate, and the \<^verbatim>\<open>from_function\<close> of every Call-edge is the id of a
  FunctionNode of the aggregate.
\<close>

theorem edge_sources_exist:
  "(\<forall>i \<in> set (imports (snd (parse_repository env repo_path python_files))).
      \<exists>f \<in> set (files (snd (parse_repository env repo_path python_files))).
        relative_path f = from_file i) \<and>
   (\<forall>c \<in> set (calls (snd (parse_repository env repo_path python_files))).
      \<exists>fn \<in> set (functions (snd (parse_repository env repo_path python_files))).
        func_id fn = from_function c)"
  using parse_repository_invariant(1) [of env repo_path python_files]
  by (simp add: sources_exist_def)

theorem edge_sources_exist_witness:
  "\<lparr>from_file = ''b.py'', to_file = ''a.py'', import_name = ''a.foo''\<rparr>
     \<in> set (imports fixture_data) \<and>
   (\<exists>f \<in> set (files fixture_data). relative_path f = ''b.py'') \<and>
   \<lparr>from_function = ''pkg/d.py::dup'', to_function = ''self.helper''\<rparr>
     \<in> set (calls fixture_data) \<and>
   (\<exists>fn \<in> set (functions fixture_data). func_id fn = ''pkg/d.py::dup'')"
proof -
  have i: "\<lparr>from_file = ''b.py'', to_file = ''a.py'', import_name = ''a.foo''\<rparr>
      \<in> set (imports fixture_data)"
    by (simp add: fixture_data_parts)
  have c: "\<lparr>from_function = ''pkg/d.py::dup'', to_function = ''self.helper''\<rparr>
      \<in> set (calls fixture_data)"
    by (simp add: fixture_data_parts)
  from edge_sources_exist [of fixture_env "[''repo'']" fixture_files] i c
  show ?thesis
    unfolding fixture_data_def [symmetric] by fastforce
qed

lemma last_wins_snoc: "last_wins (fs @ [f]) = (last_wins fs)(func_name f \<mapsto> func_id f)"
  by (simp add: last_wins_def)

lemma last_wins_agree:
  assumes "f \<in> set gs" and "func_name f = k"
    and "\<forall>g \<in> set gs. func_name g = k \<longrightarrow> func_id g = v"
  shows "last_wins (fs @ gs) k = Some v"
proof -
  let ?ps = "rev (map (\<lambda>f. (func_name f, func_id f)) gs)"
  from assms(1,2) have "k \<in> fst ` set ?ps"
    by force
  then obtain v' where v': "map_of ?ps k = Some v'"
    by (metis map_of_eq_None_iff not_Some_eq)
  then have "(k, v') \<in> set ?ps"
    by (rule map_of_SomeD)
  with assms(3) have "v' = v"
    by auto
  with v' show ?thesis
    by (simp add: last_wins_append last_wins_def map_add_def)
qed

lemma tree_functions_member:
  "n \<in> set (ast_walk tree) \<Longrightarrow> declared_function n = Some d \<Longrightarrow>
   function_node fp d \<in> set (tree_functions fp tree)"
  by (force simp: tree_functions_def List.map_filter_def)

lemma tree_functions_ids:
  "g \<in> set (tree_functions fp tree) \<Longrightarrow> func_id g = function_id fp (func_name g)"
  by (auto simp: tree_functions_def function_node_def)

text \<open>
  Claim C4. The name table of the returned aggregate is the one that
  inserting the FunctionNodes in discovery order builds, a later node
  overwriting an earlier one of the same name. When two files that parse each
  declare a function \<open>dup\<close>, the table maps \<open>dup\<close> to the id from the second
  file, the one discovered last, and that is its only entry for the name (a
  map has one value for each key); the aggregate's function sequence holds
  both FunctionNodes, as separate entries.
\<close>

theorem last_discovered_function_wins:
  "function_map (snd (parse_repository env repo_path python_files)) =
     last_wins (functions (snd (parse_repository env repo_path python_files))) \<and>
   last_wins [] = Map.empty \<and>
   last_wins (fs @ [f]) = (last_wins fs)(func_name f \<mapsto> func_id f) \<and>
   (parsed_tree env p1 = Some t1 \<and> parsed_tree env p2 = Some t2 \<and>
    n1 \<in> set (ast_walk t1) \<and> declared_function n1 = Some (dup, l1) \<and>
    n2 \<in> set (ast_walk t2) \<and> declared_function n2 = Some (dup, l2) \<longrightarrow>
      function_map (snd (parse_repository env repo_path [p1, p2])) dup =
        Some (function_id (get_relative_path repo_path p2) dup) \<and>
      (\<exists>as bs cs. functions (snd (parse_repository env repo_path [p1, p2])) =
         as @ [function_node (get_relative_path repo_path p1) (dup, l1)] @ bs @
         [function_node (get_relative_path repo_path p2) (dup, l2)] @ cs))"
proof -
  have scenario: "function_map (snd (parse_repository env repo_path [p1, p2])) dup =
        Some (function_id (get_relative_path repo_path p2) dup) \<and>
      (\<exists>as bs cs. functions (snd (parse_repository env repo_path [p1, p2])) =
         as @ [function_node (get_relative_path repo_path p1) (dup, l1)] @ bs @
         [function_node (get_relative_path repo_path p2) (dup, l2)] @ cs)"
    if t1: "parsed_tree env p1 = Some t1" and t2: "parsed_tree env p2 = Some t2"
      and n1: "n1 \<in> set (ast_walk t1)" "declared_function n1 = Some (dup, l1)"
      and n2: "n2 \<in> set (ast_walk t2)" "declared_function n2 = Some (dup, l2)"
  proof -
    let ?r1 = "get_relative_path repo_path p1" and ?r2 = "get_relative_path repo_path p2"
    let ?d = "snd (parse_repository env repo_path [p1, p2])"
    have fs: "functions ?d = tree_functions ?r1 t1 @ tree_functions ?r2 t2"
      by (simp add: parse_repository_def parse_file_parsed [OF t1] parse_file_parsed [OF t2]
          empty_data_def)
    from tree_functions_member [OF n1] obtain as bs
      where one: "tree_functions ?r1 t1 = as @ function_node ?r1 (dup, l1) # bs"
      by (meson split_list)
    from tree_functions_member [OF n2] have two_in:
      "function_node ?r2 (dup, l2) \<in> set (tree_functions ?r2 t2)" .
    then obtain bs' cs
      where two: "tree_functions ?r2 t2 = bs' @ function_node ?r2 (dup, l2) # cs"
      by (meson split_list)
    have "functions ?d = as @ [function_node ?r1 (dup, l1)] @ (bs @ bs') @
        [function_node ?r2 (dup, l2)] @ cs"
      by (simp add: fs one two)
    moreover have "function_map ?d dup = Some (function_id ?r2 dup)"
      using last_wins_agree [OF two_in, of dup "function_id ?r2 dup" "tree_functions ?r1 t1"]
        tree_functions_ids [of _ ?r2 t2]
      by (simp add: parse_repository_invariant(2) fs function_node_def)
    ultimately show ?thesis
      by blast
  qed
  show ?thesis
    using scenario
    by (simp add: parse_repository_invariant(2) last_wins_snoc) (simp add: last_wins_def)
qed

theorem last_discovered_function_wins_witness:
  "function_map (snd (parse_repository fixture_env [''repo'']
       [[''repo'', ''pkg'', ''c.py''], [''repo'', ''pkg'', ''d.py'']])) ''dup'' =
     Some ''pkg/d.py::dup'' \<and>
   (\<exists>as bs cs. functions (snd (parse_repository fixture_env [''repo'']
       [[''repo'', ''pkg'', ''c.py''], [''repo'', ''pkg'', ''d.py'']])) =
      as @ [\<lparr>func_id = ''pkg/c.py::dup'', func_name = ''dup'', func_file_path = ''pkg/c.py'',
              func_line_number = 1\<rparr>] @ bs @
      [\<lparr>func_id = ''pkg/d.py::dup'', func_name = ''dup'', func_file_path = ''pkg/d.py'',
        func_line_number = 2\<rparr>] @ cs)"
proof -
  have n1: "FunctionDef ''dup'' 1 [Other [], Other []] \<in> set (ast_walk tree_c)"
    by (simp add: fixture_walks)
  have d1: "declared_function (FunctionDef ''dup'' 1 [Other [], Other []]) = Some (''dup'', 1)"
    by simp
  have n2: "AsyncFunctionDef ''dup'' 2
        [Other [Other []], Other [Call (Attribute (Name ''self'') ''helper'') []]]
      \<in> set (ast_walk tree_d)"
    by (simp add: fixture_walks)
  have d2: "declared_function (AsyncFunctionDef ''dup'' 2
        [Other [Other []], Other [Call (Attribute (Name ''self'') ''helper'') []]]) =
      Some (''dup'', 2)"
    by simp
  have parsed: "parsed_tree fixture_env [''repo'', ''pkg'', ''c.py''] = Some tree_c \<and>
      parsed_tree fixture_env [''repo'', ''pkg'', ''d.py''] = Some tree_d \<and>
      FunctionDef ''dup'' 1 [Other [], Other []] \<in> set (ast_walk tree_c) \<and>
      declared_function (FunctionDef ''dup'' 1 [Other [], Other []]) = Some (''dup'', 1) \<and>
      AsyncFunctionDef ''dup'' 2
        [Other [Other []], Other [Call (Attribute (Name ''self'') ''helper'') []]]
        \<in> set (ast_walk tree_d) \<and>
      declared_function (AsyncFunctionDef ''dup'' 2
        [Other [Other []], Other [Call (Attribute (Name ''self'') ''helper'') []]]) =
        Some (''dup'', 2)"
    using fixture_parsed n1 d1 n2 d2 by blast
  from last_discovered_function_wins [where env = fixture_env and repo_path = "[''repo'']"
      and ?p1.0 = "[''repo'', ''pkg'', ''c.py'']" and ?t1.0 = tree_c
      and ?p2.0 = "[''repo'', ''pkg'', ''d.py'']" and ?t2.0 = tree_d
      and ?n1.0 = "FunctionDef ''dup'' 1 [Other [], Other []]" and dup = "''dup''"
      and ?l1.0 = 1 and ?l2.0 = 2
      and ?n2.0 = "AsyncFunctionDef ''dup'' 2
        [Other [Other []], Other [Call (Attribute (Name ''self'') ''helper'') []]]",
      THEN conjunct2, THEN conjunct2, THEN conjunct2, THEN mp, OF parsed]
  show ?thesis
    by (simp add: fixture_relative function_node_def function_id_def)
qed

section \<open>Properties of call ingestion\<close>

lemma ingest_call_skip:
  "\<not> truthy (fm (to_function c)) \<Longrightarrow> ingest_call fm (st, n) c = (st, n)"
  by (simp add: ingest_call_def)

lemma ingest_call_nodes:
  "function_nodes (fst (ingest_call fm state c)) = function_nodes (fst state)"
  "file_nodes (fst (ingest_call fm state c)) = file_nodes (fst state)"
  "defines_rels (fst (ingest_call fm state c)) = defines_rels (fst state)"
  "func_id_unique (fst (ingest_call fm state c)) = func_id_unique (fst state)"
  by (simp_all add: ingest_call_def Let_def)

lemma ingest_call_edges:
  "set (calls_rels (fst (ingest_call fm state c))) =
     set (calls_rels (fst state)) \<union> resolved_edges [c] fm (fst state)"
  by (cases "fm (to_function c)")
     (auto simp: ingest_call_def Let_def resolved_edges_def)

lemma resolved_edges_same_nodes:
  "function_nodes st' = function_nodes st \<Longrightarrow>
   resolved_edges cs fm st' = resolved_edges cs fm st"
  by (simp add: resolved_edges_def match_function_def)

lemma resolved_edges_Cons:
  "resolved_edges (c # cs) fm st = resolved_edges [c] fm st \<union> resolved_edges cs fm st"
  by (auto simp: resolved_edges_def)

lemma foldl_ingest_call:
  "function_nodes (fst (foldl (ingest_call fm) state cs)) = function_nodes (fst state) \<and>
   file_nodes (fst (foldl (ingest_call fm) state cs)) = file_nodes (fst state) \<and>
   defines_rels (fst (foldl (ingest_call fm) state cs)) = defines_rels (fst state) \<and>
   set (calls_rels (fst (foldl (ingest_call fm) state cs))) =
     set (calls_rels (fst state)) \<union> resolved_edges cs fm (fst state)"
proof (induction cs arbitrary: state)
  case Nil
  show ?case by (simp add: resolved_edges_def)
next
  case (Cons c cs)
  have "resolved_edges cs fm (fst (ingest_call fm state c)) = resolved_edges cs fm (fst state)"
    by (rule resolved_edges_same_nodes) (simp add: ingest_call_nodes)
  with Cons.IH [of "ingest_call fm state c"] show ?case
    by (auto simp: ingest_call_nodes ingest_call_edges resolved_edges_Cons [of c cs])
qed

lemma foldl_ingest_call_filter:
  "foldl (ingest_call fm) state (filter (\<lambda>c. truthy (fm (to_function c))) cs) =
   foldl (ingest_call fm) state cs"
proof (induction cs arbitrary: state)
  case Nil
  show ?case by simp
next
  case (Cons c cs)
  then show ?case
    by (cases state) (simp add: ingest_call_skip)
qed

lemma match_function_pos:
  "0 < match_function st i \<longleftrightarrow> (\<exists>n \<in> set (function_nodes st). fst n = i)"
  by (simp add: match_function_def filter_empty_conv)

lemma ingest_call_resolved:
  assumes "fm (to_function c) = Some tid" and "tid \<noteq> []"
    and "0 < match_function st (from_function c)" and "0 < match_function st tid"
  shows "ingest_call fm (st, n) c =
    (st\<lparr>calls_rels := List.insert (from_function c, tid) (calls_rels st)\<rparr>, n + 1)"
  using assms by (simp add: ingest_call_def)

lemma ingest_calls_store:
  "function_nodes (fst (ingest_calls cs fm st)) = function_nodes st"
  "set (calls_rels (fst (ingest_calls cs fm st))) = set (calls_rels st) \<union> resolved_edges cs fm st"
  using foldl_ingest_call [of fm "(st, 0)" cs]
  by (auto simp: ingest_calls_def resolved_edges_def split: prod.splits)

lemma ingest_calls_filter:
  "fst (ingest_calls (filter (\<lambda>c. truthy (fm (to_function c))) cs) fm st) =
   fst (ingest_calls cs fm st)"
proof -
  have "fst (foldl (ingest_call fm) (st, 0) []) = st"
    by simp
  then have empty: "fst (foldl (ingest_call fm) (st, 0) cs) = st"
    if "filter (\<lambda>c. truthy (fm (to_function c))) cs = []"
    using foldl_ingest_call_filter [of fm "(st, 0)" cs] that by simp
  show ?thesis
    using empty foldl_ingest_call_filter [of fm "(st, 0)" cs]
    by (auto simp: ingest_calls_def split: prod.splits)
qed

lemma ingest_function_nodes:
  assumes "ingest_function st f = Inr st'"
  shows "set (function_nodes st) \<subseteq> set (function_nodes st')"
    and "(func_id f, func_name f, func_line_number f) \<in> set (function_nodes st')"
  using assms by (auto simp: ingest_function_def Let_def split: if_splits)

lemma ingest_functions_nodes:
  "ingest_functions fs st = Inr st' \<Longrightarrow>
   set (function_nodes st) \<subseteq> set (function_nodes st') \<and>
   (\<forall>f \<in> set fs. 0 < match_function st' (func_id f))"
proof (induction fs arbitrary: st)
  case Nil
  then show ?case by simp
next
  case (Cons f fs)
  from Cons.prems obtain st1 where one: "ingest_function st f = Inr st1"
    and rest: "ingest_functions fs st1 = Inr st'"
    by (auto split: sum.splits)
  from Cons.IH [OF rest] ingest_function_nodes [OF one] show ?case
    by (force simp: match_function_pos)
qed

lemma last_wins_range:
  "last_wins fs k = Some v \<Longrightarrow> \<exists>f \<in> set fs. func_name f = k \<and> func_id f = v"
  by (auto simp: last_wins_def dest!: map_of_SomeD)

lemma dom_last_wins: "dom (last_wins fs) = func_name ` set fs"
  by (force simp: last_wins_def dom_map_of_conv_image_fst)

lemma parse_loop_function_ids:
  "\<forall>f \<in> set (functions d). func_id f \<noteq> [] \<Longrightarrow>
   \<forall>f \<in> set (functions (snd (parse_loop env repo_path fs (n, d)))). func_id f \<noteq> []"
proof (induction fs arbitrary: n d)
  case Nil
  then show ?case by simp
next
  case (Cons p fs)
  show ?case
  proof (cases "parsed_tree env p")
    case None
    with Cons show ?thesis
      by (simp add: parse_file_failed parse_fails_parsed_tree)
  next
    case (Some tree)
    have ids: "func_id f \<noteq> []"
      if "f \<in> set (tree_functions (get_relative_path repo_path p) tree)" for f
      using tree_functions_ids [OF that] by (simp add: function_id_def)
    obtain ok d' where pf: "parse_file env repo_path p d = (ok, d')"
      by (cases "parse_file env repo_path p d")
    with parse_file_parsed [OF Some, of repo_path d]
    have "functions d' = functions d @ tree_functions (get_relative_path repo_path p) tree"
      by auto
    with Cons.prems ids have "\<forall>f \<in> set (functions d'). func_id f \<noteq> []"
      by auto
    from Cons.IH [OF this] pf show ?thesis
      by simp
  qed
qed

lemma parse_loop_function_names:
  "map func_name (functions (snd (parse_loop env repo_path fs (n, d)))) =
     map func_name (functions d) @ declared_function_names env fs"
proof (induction fs arbitrary: n d)
  case Nil
  show ?case by (simp add: declared_function_names_def)
next
  case (Cons p fs)
  show ?case
  proof (cases "parsed_tree env p")
    case None
    with Cons.IH show ?thesis
      by (simp add: parse_file_failed parse_fails_parsed_tree declared_function_names_def)
  next
    case (Some tree)
    have "map func_name (tree_functions rel tree) =
        map fst (List.map_filter declared_function (ast_walk tree))" for rel
      by (simp add: tree_functions_def function_node_def comp_def)
    with Some Cons.IH show ?thesis
      by (simp add: parse_file_parsed [OF Some] declared_function_names_def)
  qed
qed

lemma parse_repository_function_names:
  "func_name ` set (functions (snd (parse_repository env repo_path fs))) =
     set (declared_function_names env fs)"
  using parse_loop_function_names [of env repo_path fs 0 empty_data]
  by (simp add: parse_repository_def empty_data_def flip: set_map)

lemma parse_repository_function_ids:
  "f \<in> set (functions (snd (parse_repository env repo_path fs))) \<Longrightarrow> func_id f \<noteq> []"
  using parse_loop_function_ids [of empty_data env repo_path fs 0]
  by (simp add: parse_repository_def empty_data_def)

lemma pipeline_call_edge:
  assumes st1: "ingest_functions (functions (snd (parse_repository env repo_path fs))) st0 =
      Inr st1"
    and c: "c \<in> set (calls (snd (parse_repository env repo_path fs)))"
    and tid: "function_map (snd (parse_repository env repo_path fs)) (to_function c) = Some tid"
  shows "(from_function c, tid) \<in> set (calls_rels (fst (ingest_calls
      (calls (snd (parse_repository env repo_path fs)))
      (function_map (snd (parse_repository env repo_path fs))) st1)))"
proof -
  let ?d = "snd (parse_repository env repo_path fs)"
  from ingest_functions_nodes [OF st1]
  have nodes: "\<forall>f \<in> set (functions ?d). 0 < match_function st1 (func_id f)"
    by simp
  from parse_repository_invariant(1) [of env repo_path fs] c
  obtain fn where "fn \<in> set (functions ?d)" "func_id fn = from_function c"
    by (auto simp: sources_exist_def)
  with nodes have src: "0 < match_function st1 (from_function c)"
    by auto
  from tid have "last_wins (functions ?d) (to_function c) = Some tid"
    by (simp add: parse_repository_invariant(2))
  from last_wins_range [OF this] obtain g where g: "g \<in> set (functions ?d)" "func_id g = tid"
    by blast
  with nodes have tgt: "0 < match_function st1 tid"
    by auto
  from g parse_repository_function_ids [of g env repo_path fs] have "tid \<noteq> []"
    by auto
  with c tid src tgt have "(from_function c, tid) \<in> resolved_edges (calls ?d) (function_map ?d) st1"
    by (auto simp: resolved_edges_def)
  then show ?thesis
    by (simp add: ingest_calls_store)
qed

lemma fixture_ab_parts:
  "functions fixture_ab =
     [\<lparr>func_id = ''a.py::foo'', func_name = ''foo'', func_file_path = ''a.py'',
       func_line_number = 1\<rparr>,
      \<lparr>func_id = ''b.py::bar'', func_name = ''bar'', func_file_path = ''b.py'',
       func_line_number = 2\<rparr>]"
  "calls fixture_ab = [\<lparr>from_function = ''b.py::bar'', to_function = ''foo''\<rparr>]"
  "files fixture_ab =
     [\<lparr>path = ''/repo/a.py'', relative_path = ''a.py''\<rparr>,
      \<lparr>path = ''/repo/b.py'', relative_path = ''b.py''\<rparr>]"
  by (simp_all add: fixture_ab_def parse_repository_def parse_file_parsed fixture_parsed
      fixture_relative fixture_tree_functions fixture_tree_calls fixture_tree_imports
      fixture_recursion_error empty_data_def str_abs_def)

lemma fixture_ab_lookup: "function_map fixture_ab ''foo'' = Some ''a.py::foo''"
  unfolding fixture_ab_def parse_repository_invariant(2)
  unfolding fixture_ab_def [symmetric]
  by (simp add: fixture_ab_parts last_wins_def)

lemma fixture_ab_functions_ingested:
  "ingest_functions (functions fixture_ab) (ingest_files (files fixture_ab) empty_store) =
     Inr \<lparr>file_nodes = [''b.py'', ''a.py''],
          function_nodes = [(''a.py::foo'', ''foo'', 1), (''b.py::bar'', ''bar'', 2)],
          defines_rels = [(''b.py'', ''b.py::bar''), (''a.py'', ''a.py::foo'')],
          calls_rels = [], func_id_unique = True\<rparr>"
  by (simp add: fixture_ab_parts ingest_files_def empty_store_def ingest_function_def
      match_function_def)

lemma fixture_ab_calls_ingested:
  "ingest_calls (calls fixture_ab) (function_map fixture_ab)
     \<lparr>file_nodes = [''b.py'', ''a.py''],
      function_nodes = [(''a.py::foo'', ''foo'', 1), (''b.py::bar'', ''bar'', 2)],
      defines_rels = [(''b.py'', ''b.py::bar''), (''a.py'', ''a.py::foo'')],
      calls_rels = [], func_id_unique = True\<rparr> =
     (\<lparr>file_nodes = [''b.py'', ''a.py''],
       function_nodes = [(''a.py::foo'', ''foo'', 1), (''b.py::bar'', ''bar'', 2)],
       defines_rels = [(''b.py'', ''b.py::bar''), (''a.py'', ''a.py::foo'')],
       calls_rels = [(''b.py::bar'', ''a.py::foo'')], func_id_unique = True\<rparr>, Some 1)"
  by (simp add: fixture_ab_parts fixture_ab_lookup ingest_calls_def ingest_call_def
      match_function_def)

lemma fixture_data_lookup:
  "function_map fixture_data ''foo'' = Some ''a.py::foo''"
  "function_map fixture_data ''self.helper'' = None"
  "function_map fixture_data ''K'' = None"
  "function_map fixture_data ''dup'' = Some ''pkg/d.py::dup''"
  unfolding fixture_data_def parse_repository_invariant(2)
  unfolding fixture_data_def [symmetric]
  by (simp_all add: fixture_data_parts last_wins_def)

lemma fixture_data_functions_ingested:
  "ingest_functions (functions fixture_data) empty_store =
     Inr \<lparr>file_nodes = [],
          function_nodes = [(''a.py::foo'', ''foo'', 1), (''b.py::bar'', ''bar'', 2),
            (''pkg/c.py::dup'', ''dup'', 1), (''pkg/d.py::dup'', ''dup'', 2)],
          defines_rels = [], calls_rels = [], func_id_unique = True\<rparr>"
  by (simp add: fixture_data_parts empty_store_def ingest_function_def match_function_def)

text \<open>
  Claim C2. In the loop of \<^verbatim>\<open>ingest_calls\<close>, a Call-edge whose name is not in
  the table (or has an empty id there) changes nothing: no statement is sent,
  the store and the counter stay as they are. A Call-edge whose name resolves
  merges one \<^verbatim>\<open>CALLS\<close> relationship from its source to the id found, when
  both Function nodes exist. Over the whole list the Function nodes are
  unchanged and the new relationships are exactly the resolved edges, so no
  edge without a resolved target is ever created, and unresolved edges can be
  dropped beforehand without changing the store. After \<^verbatim>\<open>parse_repository\<close>
  and a successful \<^verbatim>\<open>ingest_functions\<close>, every Call-edge of the aggregate
  whose name is in the table gets its relationship. For the fixture with
  \<^verbatim>\<open>a.py\<close> defining \<^verbatim>\<open>foo\<close> and \<^verbatim>\<open>b.py\<close> defining \<^verbatim>\<open>bar\<close>, which calls \<^verbatim>\<open>foo()\<close>,
  the only relationship created goes from \<^verbatim>\<open>b.py::bar\<close> to \<^verbatim>\<open>a.py::foo\<close>.
\<close>

theorem call_edges_resolved_by_name:
  "(\<not> truthy (fm (to_function c)) \<longrightarrow> ingest_call fm (st, n) c = (st, n)) \<and>
   (fm (to_function c) = Some tid \<and> tid \<noteq> [] \<and>
    0 < match_function st (from_function c) \<and> 0 < match_function st tid \<longrightarrow>
      ingest_call fm (st, n) c =
        (st\<lparr>calls_rels := List.insert (from_function c, tid) (calls_rels st)\<rparr>, n + 1)) \<and>
   function_nodes (fst (ingest_calls cs fm st)) = function_nodes st \<and>
   set (calls_rels (fst (ingest_calls cs fm st))) =
     set (calls_rels st) \<union> resolved_edges cs fm st \<and>
   fst (ingest_calls (filter (\<lambda>c. truthy (fm (to_function c))) cs) fm st) =
     fst (ingest_calls cs fm st) \<and>
   (ingest_functions (functions (snd (parse_repository env repo_path python_files))) st0 =
      Inr st1 \<and>
    e \<in> set (calls (snd (parse_repository env repo_path python_files))) \<and>
    function_map (snd (parse_repository env repo_path python_files)) (to_function e) =
      Some eid \<longrightarrow>
      (from_function e, eid) \<in> set (calls_rels (fst (ingest_calls
        (calls (snd (parse_repository env repo_path python_files)))
        (function_map (snd (parse_repository env repo_path python_files))) st1)))) \<and>
   (\<exists>st1. ingest_functions (functions fixture_ab)
             (ingest_files (files fixture_ab) empty_store) = Inr st1 \<and>
          calls_rels (fst (ingest_calls (calls fixture_ab) (function_map fixture_ab) st1)) =
            [(''b.py::bar'', ''a.py::foo'')])"
proof -
  have pipeline: "(from_function e, eid) \<in> set (calls_rels (fst (ingest_calls
        (calls (snd (parse_repository env repo_path python_files)))
        (function_map (snd (parse_repository env repo_path python_files))) st1)))"
    if "ingest_functions (functions (snd (parse_repository env repo_path python_files))) st0 =
        Inr st1"
      and "e \<in> set (calls (snd (parse_repository env repo_path python_files)))"
      and "function_map (snd (parse_repository env repo_path python_files)) (to_function e) =
        Some eid"
    using that by (rule pipeline_call_edge)
  have fixture: "\<exists>st1. ingest_functions (functions fixture_ab)
             (ingest_files (files fixture_ab) empty_store) = Inr st1 \<and>
          calls_rels (fst (ingest_calls (calls fixture_ab) (function_map fixture_ab) st1)) =
            [(''b.py::bar'', ''a.py::foo'')]"
    using fixture_ab_functions_ingested fixture_ab_calls_ingested by simp
  show ?thesis
    using pipeline fixture ingest_call_skip [of fm c st n]
      ingest_call_resolved [of fm c tid st n] ingest_calls_store [of cs fm st]
      ingest_calls_filter [of fm cs st]
    by blast
qed

theorem call_edges_resolved_by_name_witness:
  "\<not> truthy (function_map fixture_data ''self.helper'') \<and>
   ingest_call (function_map fixture_data)
     (\<lparr>file_nodes = [],
       function_nodes = [(''a.py::foo'', ''foo'', 1), (''b.py::bar'', ''bar'', 2),
         (''pkg/c.py::dup'', ''dup'', 1), (''pkg/d.py::dup'', ''dup'', 2)],
       defines_rels = [], calls_rels = [], func_id_unique = True\<rparr>, 0)
     \<lparr>from_function = ''pkg/d.py::dup'', to_function = ''self.helper''\<rparr> =
     (\<lparr>file_nodes = [],
       function_nodes = [(''a.py::foo'', ''foo'', 1), (''b.py::bar'', ''bar'', 2),
         (''pkg/c.py::dup'', ''dup'', 1), (''pkg/d.py::dup'', ''dup'', 2)],
       defines_rels = [], calls_rels = [], func_id_unique = True\<rparr>, 0) \<and>
   function_map fixture_data ''foo'' = Some ''a.py::foo'' \<and>
   ingest_call (function_map fixture_data)
     (\<lparr>file_nodes = [],
       function_nodes = [(''a.py::foo'', ''foo'', 1), (''b.py::bar'', ''bar'', 2),
         (''pkg/c.py::dup'', ''dup'', 1), (''pkg/d.py::dup'', ''dup'', 2)],
       defines_rels = [], calls_rels = [], func_id_unique = True\<rparr>, 0)
     \<lparr>from_function = ''b.py::bar'', to_function = ''foo''\<rparr> =
     (\<lparr>file_nodes = [],
       function_nodes = [(''a.py::foo'', ''foo'', 1), (''b.py::bar'', ''bar'', 2),
         (''pkg/c.py::dup'', ''dup'', 1), (''pkg/d.py::dup'', ''dup'', 2)],
       defines_rels = [], calls_rels = [(''b.py::bar'', ''a.py::foo'')],
       func_id_unique = True\<rparr>, 1) \<and>
   (''b.py::bar'', ''a.py::foo'') \<in> set (calls_rels (fst (ingest_calls (calls fixture_data)
      (function_map fixture_data)
      \<lparr>file_nodes = [],
       function_nodes = [(''a.py::foo'', ''foo'', 1), (''b.py::bar'', ''bar'', 2),
         (''pkg/c.py::dup'', ''dup'', 1), (''pkg/d.py::dup'', ''dup'', 2)],
       defines_rels = [], calls_rels = [], func_id_unique = True\<rparr>)))"
proof -
  let ?st = "\<lparr>file_nodes = [],
       function_nodes = [(''a.py::foo'', ''foo'', 1), (''b.py::bar'', ''bar'', 2),
         (''pkg/c.py::dup'', ''dup'', 1), (''pkg/d.py::dup'', ''dup'', 2)],
       defines_rels = [], calls_rels = [], func_id_unique = True\<rparr>"
  let ?skip = "\<lparr>from_function = ''pkg/d.py::dup'', to_function = ''self.helper''\<rparr>"
  let ?hit = "\<lparr>from_function = ''b.py::bar'', to_function = ''foo''\<rparr>"
  have unresolved: "\<not> truthy (function_map fixture_data (to_function ?skip))"
    by (simp add: fixture_data_lookup)
  have resolved: "function_map fixture_data (to_function ?hit) = Some ''a.py::foo'' \<and>
      ''a.py::foo'' \<noteq> [] \<and> 0 < match_function ?st (from_function ?hit) \<and>
      0 < match_function ?st ''a.py::foo''"
    by (simp add: fixture_data_lookup match_function_def)
  have pipeline: "ingest_functions (functions (snd (parse_repository fixture_env [''repo'']
        fixture_files))) empty_store = Inr ?st \<and>
      ?hit \<in> set (calls (snd (parse_repository fixture_env [''repo''] fixture_files))) \<and>
      function_map (snd (parse_repository fixture_env [''repo''] fixture_files))
        (to_function ?hit) = Some ''a.py::foo''"
    unfolding fixture_data_def [symmetric] fixture_data_functions_ingested
    by (simp add: fixture_data_parts(4) fixture_data_lookup)
  note inst = call_edges_resolved_by_name
  from inst [where fm = "function_map fixture_data" and c = ?skip and st = ?st and n = 0,
      THEN conjunct1, THEN mp, OF unresolved]
    inst [where fm = "function_map fixture_data" and c = ?hit and st = ?st and n = 0
      and tid = "''a.py::foo''", THEN conjunct2, THEN conjunct1, THEN mp, OF resolved]
    inst [where env = fixture_env and repo_path = "[''repo'']" and python_files = fixture_files
      and ?st0.0 = empty_store and ?st1.0 = ?st and e = ?hit and eid = "''a.py::foo''",
      THEN conjunct2, THEN conjunct2, THEN conjunct2, THEN conjunct2, THEN conjunct2,
      THEN conjunct1, THEN mp, OF pipeline]
    unresolved resolved
  show ?thesis
    unfolding fixture_data_def [symmetric] by simp
qed

text \<open>
  Claim C9. The keys of the name table are exactly the names of the function
  declarations found in the files that parse; a class name is a key only if a
  function has that name too. When none of these names contains a dot, which
  holds for every Python identifier, no key contains a dot, so the lookup of
  a name with a dot fails, the loop of \<^verbatim>\<open>ingest_calls\<close> leaves store and
  counter unchanged for such an edge, and a list of such edges leaves the
  store as it was. The candidate of a call \<open>receiver.method(...)\<close> on a bare
  receiver has a dot.
\<close>

theorem dotted_candidates_unresolved:
  "dom (function_map (snd (parse_repository env repo_path python_files))) =
     set (declared_function_names env python_files) \<and>
   (list_all (\<lambda>name. CHR ''.'' \<notin> set name) (declared_function_names env python_files) \<longrightarrow>
      (\<forall>key \<in> dom (function_map (snd (parse_repository env repo_path python_files))).
         CHR ''.'' \<notin> set key) \<and>
      (CHR ''.'' \<in> set (to_function c) \<longrightarrow>
         function_map (snd (parse_repository env repo_path python_files)) (to_function c) =
           None \<and>
         ingest_call (function_map (snd (parse_repository env repo_path python_files)))
           (st, n) c = (st, n)) \<and>
      (list_all (\<lambda>c. CHR ''.'' \<in> set (to_function c)) cs \<longrightarrow>
         fst (ingest_calls cs
           (function_map (snd (parse_repository env repo_path python_files))) st) = st)) \<and>
   call_name (Attribute (Name receiver) attr) = Some (receiver @ ''.'' @ attr) \<and>
   CHR ''.'' \<in> set (receiver @ ''.'' @ attr)"
proof -
  let ?fm = "function_map (snd (parse_repository env repo_path python_files))"
  have keys: "dom ?fm = set (declared_function_names env python_files)"
    by (simp add: parse_repository_invariant(2) dom_last_wins parse_repository_function_names)
  have dotted: "?fm k = None"
    if "list_all (\<lambda>name. CHR ''.'' \<notin> set name) (declared_function_names env python_files)"
      and "CHR ''.'' \<in> set k" for k
  proof -
    from that have "k \<notin> dom ?fm"
      unfolding keys by (auto simp: list_all_iff)
    then show ?thesis
      by blast
  qed
  have skip_all: "fst (ingest_calls cs ?fm st) = st"
    if wf: "list_all (\<lambda>name. CHR ''.'' \<notin> set name) (declared_function_names env python_files)"
      and cs: "list_all (\<lambda>c. CHR ''.'' \<in> set (to_function c)) cs"
  proof -
    from cs dotted [OF wf] have "filter (\<lambda>c. truthy (?fm (to_function c))) cs = []"
      by (simp add: filter_empty_conv list_all_iff)
    with ingest_calls_filter [of ?fm cs st] show ?thesis
      by (simp add: ingest_calls_def)
  qed
  show ?thesis
    using keys dotted skip_all
    by (auto simp: list_all_iff ingest_call_skip)
qed

theorem dotted_candidates_unresolved_witness:
  "list_all (\<lambda>name. CHR ''.'' \<notin> set name) (declared_function_names fixture_env fixture_files) \<and>
   CHR ''.'' \<in> set ''self.helper'' \<and>
   dom (function_map fixture_data) = {''foo'', ''bar'', ''dup''} \<and>
   function_map fixture_data ''self.helper'' = None \<and>
   ingest_call (function_map fixture_data) (empty_store, 0)
     \<lparr>from_function = ''pkg/d.py::dup'', to_function = ''self.helper''\<rparr> = (empty_store, 0) \<and>
   fst (ingest_calls [\<lparr>from_function = ''pkg/d.py::dup'', to_function = ''self.helper''\<rparr>]
     (function_map fixture_data) empty_store) = empty_store"
proof -
  let ?c = "\<lparr>from_function = ''pkg/d.py::dup'', to_function = ''self.helper''\<rparr>"
  have names: "declared_function_names fixture_env fixture_files =
      [''foo'', ''bar'', ''dup'', ''dup'']"
    by (simp add: declared_function_names_def fixture_files_def fixture_parsed fixture_walks
        List.map_filter_simps)
      (simp add: tree_a_def tree_b_def tree_c_def tree_d_def List.map_filter_simps)
  have wf: "list_all (\<lambda>name. CHR ''.'' \<notin> set name)
      (declared_function_names fixture_env fixture_files)"
    by (simp add: names)
  have dot: "CHR ''.'' \<in> set (to_function ?c)"
    by simp
  have all: "list_all (\<lambda>c. CHR ''.'' \<in> set (to_function c)) [?c]"
    by simp
  note inst = dotted_candidates_unresolved [where env = fixture_env and repo_path = "[''repo'']"
      and python_files = fixture_files and st = empty_store and n = 0
      and c = "\<lparr>from_function = ''pkg/d.py::dup'', to_function = ''self.helper''\<rparr>"
      and cs = "[\<lparr>from_function = ''pkg/d.py::dup'', to_function = ''self.helper''\<rparr>]"]
  from inst [THEN conjunct1] inst [THEN conjunct2, THEN conjunct1, THEN mp, OF wf] wf dot all
  show ?thesis
    unfolding fixture_data_def [symmetric] by (auto simp: names)
qed

end
